theory Spec2Isabelle
  imports Main "HOL-Library.Multiset"
begin

section \<open>Data model of the sync engine\<close>

text \<open>
  The rows of the two SQLite tables the sync service works on, and the values that
  travel between its methods. Field names follow the source, prefixed by the record
  they belong to (\<open>q_\<close> for a row of \<open>sync_queue\<close>, \<open>t_\<close> for a row of
  \<open>tasks\<close>, \<open>e_\<close> for an entry of \<open>SyncResult.errors\<close>, \<open>p_\<close> for an entry
  of \<open>BatchSyncResponse.processed_items\<close>). Timestamps are milliseconds since the epoch;
  the ISO strings the source stores have a fixed width, so their order as strings is the
  order of these numbers.
\<close>

datatype operation = Create | Update | Delete

datatype queue_status = Pending | Synced | Failed

datatype sync_status = SyncPending | SyncSynced | SyncError

datatype outcome_status = Success | OutcomeError

datatype js_error = JsError (message: string)

record sync_queue_item =
  q_id :: string
  q_task_id :: string
  q_operation :: operation
  q_data :: string
  q_created_at :: int
  q_retry_count :: nat
  q_error_message :: "string option"
  q_status :: queue_status
  q_synced_at :: "int option"

text \<open>
  \<open>t_updated_at\<close> is what \<open>new Date(task.updated_at).getTime()\<close> yields: \<open>None\<close>
  stands for \<open>NaN\<close>, the time value of an invalid date.
\<close>

record task =
  t_id :: string
  t_title :: string
  t_description :: string
  t_completed :: bool
  t_created_at :: int
  t_updated_at :: "int option"
  t_is_deleted :: bool
  t_sync_status :: sync_status
  t_server_id :: "string option"
  t_last_synced_at :: "int option"

record sync_error =
  e_task_id :: string
  e_operation :: string
  e_error :: string
  e_timestamp :: int

record sync_result =
  success :: nat
  synced_items :: nat
  failed_items :: nat
  errors :: "sync_error list"

record processed_item =
  p_client_id :: string
  p_server_id :: string
  p_status :: outcome_status
  p_error :: "string option"

record batch_sync_response =
  processed_items :: "processed_item list"

text \<open>
  The environment variables the service reads, already parsed by \<open>parseInt\<close>;
  \<open>None\<close> is an unset (or empty) variable, for which the source falls back on
  \<open>'10'\<close> and \<open>'3'\<close>.
\<close>

record env =
  SYNC_BATCH_SIZE :: "nat option"
  SYNC_RETRY_ATTEMPTS :: "nat option"

definition batchSize_of :: "env \<Rightarrow> nat" where
  "batchSize_of ev = (case SYNC_BATCH_SIZE ev of None \<Rightarrow> 10 | Some n \<Rightarrow> n)"

definition maxRetries_of :: "env \<Rightarrow> nat" where
  "maxRetries_of ev = (case SYNC_RETRY_ATTEMPTS ev of None \<Rightarrow> 3 | Some n \<Rightarrow> n)"

fun operation_name :: "operation \<Rightarrow> string" where
  "operation_name Create = ''create''"
| "operation_name Update = ''update''"
| "operation_name Delete = ''delete''"

section \<open>The world: database, clock and storage faults\<close>

text \<open>
  Everything the service's methods read or change. \<open>tasks\<close> and \<open>sync_queue\<close> are
  the two tables, in storage order. \<open>clock\<close> is the next reading of \<open>new Date()\<close>
  and \<open>ticks\<close> says by how much the clock has advanced at each later reading.
  \<open>faults\<close> schedules the storage errors: every call of \<open>db.run\<close>, \<open>db.get\<close> or
  \<open>db.all\<close> consumes the head; \<open>Some m\<close> makes that call throw an error with
  message \<open>m\<close>, and an exhausted schedule means no more faults.
\<close>

record world =
  tasks :: "task list"
  sync_queue :: "sync_queue_item list"
  clock :: int
  ticks :: "nat list"
  faults :: "string option list"

type_synonym 'a io = "world \<Rightarrow> (js_error + 'a) \<times> world"

definition new_Date :: "world \<Rightarrow> int \<times> world" where
  "new_Date w =
     (clock w,
      w\<lparr>clock := clock w + (case ticks w of [] \<Rightarrow> 0 | d # _ \<Rightarrow> int d),
        ticks := tl (ticks w)\<rparr>)"

text \<open>One database call: the scheduled fault, or the statement's effect \<open>f\<close>.\<close>

definition db_call :: "(world \<Rightarrow> 'a \<times> world) \<Rightarrow> 'a io" where
  "db_call f w =
     (case faults w of
        Some m # fs \<Rightarrow> (Inl (JsError m), w\<lparr>faults := fs\<rparr>)
      | _ \<Rightarrow> (case f (w\<lparr>faults := tl (faults w)\<rparr>) of (v, w') \<Rightarrow> (Inr v, w')))"

text \<open>\<open>try { body } catch (e) { handler e }\<close> and sequencing of two awaited calls.\<close>

definition try_catch :: "'a io \<Rightarrow> (js_error \<Rightarrow> 'a io) \<Rightarrow> 'a io" where
  "try_catch body handler w =
     (case body w of (Inl e, w1) \<Rightarrow> handler e w1 | (Inr v, w1) \<Rightarrow> (Inr v, w1))"

definition and_then :: "'a io \<Rightarrow> ('a \<Rightarrow> 'b io) \<Rightarrow> 'b io" where
  "and_then m k w =
     (case m w of (Inl e, w1) \<Rightarrow> (Inl e, w1) | (Inr v, w1) \<Rightarrow> k v w1)"

text \<open>\<open>console.log\<close> and \<open>console.error\<close> leave the world as it is.\<close>

definition console_log :: "unit io" where
  "console_log w = (Inr (), w)"

section \<open>The SQL statements\<close>

text \<open>\<open>UPDATE sync_queue SET status = 'synced', synced_at = ? WHERE id = ?\<close>\<close>

definition sql_mark_synced :: "int \<Rightarrow> string \<Rightarrow> sync_queue_item list \<Rightarrow> sync_queue_item list" where
  "sql_mark_synced now queueId rows =
     map (\<lambda>r. if q_id r = queueId then r\<lparr>q_status := Synced, q_synced_at := Some now\<rparr> else r) rows"

text \<open>\<open>SELECT retry_count FROM sync_queue WHERE id = ?\<close>, first row or \<open>undefined\<close>.\<close>

definition sql_get_retry_count :: "string \<Rightarrow> sync_queue_item list \<Rightarrow> nat option" where
  "sql_get_retry_count queueId rows = map_option q_retry_count (find (\<lambda>r. q_id r = queueId) rows)"

text \<open>\<open>UPDATE sync_queue SET retry_count = ?, error_message = ?, status = ? WHERE id = ?\<close>\<close>

definition sql_update_retry ::
  "nat \<Rightarrow> string \<Rightarrow> queue_status \<Rightarrow> string \<Rightarrow> sync_queue_item list \<Rightarrow> sync_queue_item list" where
  "sql_update_retry retryCount msg st queueId rows =
     map (\<lambda>r. if q_id r = queueId
              then r\<lparr>q_retry_count := retryCount, q_error_message := Some msg, q_status := st\<rparr>
              else r) rows"

text \<open>
  \<open>UPDATE tasks SET sync_status = ?, server_id = COALESCE(?, server_id),
  last_synced_at = ? WHERE id = ?\<close>
\<close>

definition sql_update_task_status ::
  "sync_status \<Rightarrow> string option \<Rightarrow> int \<Rightarrow> string \<Rightarrow> task list \<Rightarrow> task list" where
  "sql_update_task_status st serverId now taskId rows =
     map (\<lambda>t. if t_id t = taskId
              then t\<lparr>t_sync_status := st,
                     t_server_id := (case serverId of None \<Rightarrow> t_server_id t | Some s \<Rightarrow> Some s),
                     t_last_synced_at := Some now\<rparr>
              else t) rows"

text \<open>\<open>DELETE FROM sync_queue WHERE task_id = ?\<close>\<close>

definition sql_delete_queue_of_task :: "string \<Rightarrow> sync_queue_item list \<Rightarrow> sync_queue_item list" where
  "sql_delete_queue_of_task taskId rows = filter (\<lambda>r. q_task_id r \<noteq> taskId) rows"

text \<open>
  \<open>UPDATE tasks SET title = ?, description = ?, completed = ?, updated_at = ?,
  sync_status = 'synced', server_id = ?, last_synced_at = ? WHERE id = ?\<close>
\<close>

definition sql_store_resolved :: "task \<Rightarrow> int \<Rightarrow> task list \<Rightarrow> task list" where
  "sql_store_resolved resolved now rows =
     map (\<lambda>t. if t_id t = t_id resolved
              then t\<lparr>t_title := t_title resolved,
                     t_description := t_description resolved,
                     t_completed := t_completed resolved,
                     t_updated_at := t_updated_at resolved,
                     t_sync_status := SyncSynced,
                     t_server_id := t_server_id resolved,
                     t_last_synced_at := Some now\<rparr>
              else t) rows"

text \<open>
  \<open>SELECT * FROM sync_queue WHERE status = 'pending' ORDER BY created_at ASC\<close>.
  The statement names no second sort key: rows with equal \<open>created_at\<close> come out in
  storage order.
\<close>

definition sql_select_pending :: "sync_queue_item list \<Rightarrow> sync_queue_item list" where
  "sql_select_pending rows = sort_key q_created_at (filter (\<lambda>r. q_status r = Pending) rows)"

section \<open>The methods of SyncService\<close>

text \<open>
  \<open>checkConnectivity\<close>: the argument is the outcome of the health request,
  \<open>None\<close> when it resolved and \<open>Some e\<close> when it was rejected or timed out.
\<close>

definition checkConnectivity :: "js_error option \<Rightarrow> bool" where
  "checkConnectivity health = (case health of None \<Rightarrow> True | Some e \<Rightarrow> False)"

definition getPendingQueueItems :: "sync_queue_item list io" where
  "getPendingQueueItems = db_call (\<lambda>w. (sql_select_pending (sync_queue w), w))"

text \<open>The argument \<open>new Date().toISOString()\<close> is evaluated before \<open>db.run\<close> is called.\<close>

definition markAsSynced :: "string \<Rightarrow> unit io" where
  "markAsSynced queueId w =
     (case new_Date w of (now, w1) \<Rightarrow>
        db_call (\<lambda>v. ((), v\<lparr>sync_queue := sql_mark_synced now queueId (sync_queue v)\<rparr>)) w1)"

definition handleSyncError :: "env \<Rightarrow> sync_queue_item \<Rightarrow> js_error \<Rightarrow> unit io" where
  "handleSyncError ev item err =
     (let maxRetries = maxRetries_of ev in
      try_catch
        (and_then (db_call (\<lambda>w. (sql_get_retry_count (q_id item) (sync_queue w), w)))
           (\<lambda>current.
              let retryCount = (case current of None \<Rightarrow> 0 | Some n \<Rightarrow> n) + 1;
                  isPermanentFailure = (retryCount \<ge> maxRetries)
              in and_then
                   (db_call (\<lambda>w. ((), w\<lparr>sync_queue :=
                        sql_update_retry retryCount (message err)
                          (if isPermanentFailure then Failed else Pending)
                          (q_id item) (sync_queue w)\<rparr>)))
                   (\<lambda>_. console_log)))
        (\<lambda>e. console_log))"

definition updateSyncStatus :: "string \<Rightarrow> sync_status \<Rightarrow> task option \<Rightarrow> unit io" where
  "updateSyncStatus taskId st serverData =
     try_catch
       (\<lambda>w. case new_Date w of (now, w1) \<Rightarrow>
          (let serverId = (case serverData of None \<Rightarrow> None | Some d \<Rightarrow> t_server_id d)
           in and_then
                (db_call (\<lambda>v. ((), v\<lparr>tasks := sql_update_task_status st serverId now taskId (tasks v)\<rparr>)))
                (\<lambda>_. if st = SyncSynced
                      then db_call (\<lambda>v. ((), v\<lparr>sync_queue := sql_delete_queue_of_task taskId (sync_queue v)\<rparr>))
                      else console_log)) w1)
       (\<lambda>e. console_log)"

text \<open>
  \<open>resolveConflict\<close>. A comparison with \<open>NaN\<close> is false in JavaScript, so an invalid
  date on either side falls through to the last branch.
\<close>

definition js_gt :: "int option \<Rightarrow> int option \<Rightarrow> bool" where
  "js_gt a b = (case (a, b) of (Some x, Some y) \<Rightarrow> x > y | _ \<Rightarrow> False)"

definition resolveConflict :: "task \<Rightarrow> task \<Rightarrow> task io" where
  "resolveConflict localTask serverTask =
     (let localUpdated = t_updated_at localTask;
          serverUpdated = t_updated_at serverTask;
          resolved = (if js_gt localUpdated serverUpdated then localTask
                      else if js_gt serverUpdated localUpdated then serverTask
                      else serverTask)
      in (\<lambda>w. case new_Date w of (now, w1) \<Rightarrow>
            and_then
              (db_call (\<lambda>v. ((), v\<lparr>tasks := sql_store_resolved resolved now (tasks v)\<rparr>)))
              (\<lambda>_. \<lambda>w2. (Inr resolved, w2)) w1))"

text \<open>\<open>for (const item of items) { await body(item) }\<close>: the first throw ends the loop.\<close>

fun for_each :: "('a \<Rightarrow> unit io) \<Rightarrow> 'a list \<Rightarrow> unit io" where
  "for_each body [] = (\<lambda>w. (Inr (), w))"
| "for_each body (item # rest) = and_then (body item) (\<lambda>_. for_each body rest)"

text \<open>
  \<open>processBatch\<close>. Building the request reads the clock once. The send is a
  500 ms timer that always resolves, and every item is given the outcome
  \<open>'success'\<close> before any of the storage calls is made.
\<close>

definition processBatch :: "env \<Rightarrow> sync_queue_item list \<Rightarrow> batch_sync_response io" where
  "processBatch ev items w =
     (case new_Date w of (client_timestamp, w0) \<Rightarrow>
        try_catch
          (let processed =
                 map (\<lambda>item. \<lparr>p_client_id = q_id item, p_server_id = q_task_id item,
                                p_status = Success, p_error = None\<rparr>) items
           in and_then
                (for_each (\<lambda>item. and_then (updateSyncStatus (q_task_id item) SyncSynced None)
                                     (\<lambda>_. markAsSynced (q_id item))) items)
                (\<lambda>_. \<lambda>w1. (Inr \<lparr>processed_items = processed\<rparr>, w1)))
          (\<lambda>error.
             let failedItems =
                   map (\<lambda>item. \<lparr>p_client_id = q_id item, p_server_id = q_task_id item,
                                  p_status = OutcomeError, p_error = Some (message error)\<rparr>) items
             in and_then
                  (for_each (\<lambda>item. and_then (updateSyncStatus (q_task_id item) SyncError None)
                                       (\<lambda>_. handleSyncError ev item error)) items)
                  (\<lambda>_. \<lambda>w1. (Inr \<lparr>processed_items = failedItems\<rparr>, w1)))
          w0)"

text \<open>The local variables \<open>synced\<close>, \<open>failed\<close> and \<open>errors\<close> of \<open>sync\<close>.\<close>

record totals =
  synced :: nat
  failed :: nat
  errs :: "sync_error list"

text \<open>\<open>items.slice(a, b)\<close> for indices that are not negative.\<close>

definition slice :: "'a list \<Rightarrow> nat \<Rightarrow> nat \<Rightarrow> 'a list" where
  "slice xs a b = take (b - a) (drop a xs)"

text \<open>\<open>f.error || 'Unknown error'\<close>: a missing or empty text is replaced.\<close>

definition error_or_unknown :: "string option \<Rightarrow> string" where
  "error_or_unknown e = (case e of None \<Rightarrow> ''Unknown error'' | Some m \<Rightarrow> if m = [] then ''Unknown error'' else m)"

text \<open>\<open>failedBatch.forEach((f) => errors.push(...))\<close>, one clock reading per entry.\<close>

fun push_failed :: "processed_item list \<Rightarrow> sync_error list \<Rightarrow> world \<Rightarrow> sync_error list \<times> world" where
  "push_failed [] es w = (es, w)"
| "push_failed (f # fs) es w =
     (case new_Date w of (now, w1) \<Rightarrow>
        push_failed fs
          (es @ [\<lparr>e_task_id = p_client_id f, e_operation = ''sync'',
                   e_error = error_or_unknown (p_error f), e_timestamp = now\<rparr>]) w1)"

text \<open>
  The loop of the \<open>catch\<close> clause of \<open>sync\<close>: an entry is pushed, then
  \<open>handleSyncError\<close> is awaited, for each item of the batch in turn.
\<close>

fun catch_items :: "env \<Rightarrow> js_error \<Rightarrow> sync_queue_item list \<Rightarrow> sync_error list \<Rightarrow> sync_error list io" where
  "catch_items ev err [] es w = (Inr es, w)"
| "catch_items ev err (item # rest) es w =
     (case new_Date w of (now, w1) \<Rightarrow>
        and_then (handleSyncError ev item err)
          (\<lambda>_. catch_items ev err rest
                  (es @ [\<lparr>e_task_id = q_task_id item, e_operation = operation_name (q_operation item),
                           e_error = message err, e_timestamp = now\<rparr>])) w1)"

text \<open>
  The body of the \<open>for\<close> loop of \<open>sync\<close> for one batch. The batch processor is a
  parameter: \<open>sync\<close> passes \<open>processBatch\<close>.
\<close>

definition sync_batch ::
  "(sync_queue_item list \<Rightarrow> batch_sync_response io) \<Rightarrow> env \<Rightarrow> sync_queue_item list \<Rightarrow> totals \<Rightarrow> totals io" where
  "sync_batch pb ev batch acc w =
     (case pb batch w of
        (Inr result, w1) \<Rightarrow>
          (let successful = length (filter (\<lambda>p. p_status p = Success) (processed_items result));
               failedBatch = filter (\<lambda>p. p_status p = OutcomeError) (processed_items result)
           in case push_failed failedBatch (errs acc) w1 of (es, w2) \<Rightarrow>
                (Inr \<lparr>synced = synced acc + successful,
                      failed = failed acc + length failedBatch,
                      errs = es\<rparr>, w2))
      | (Inl err, w1) \<Rightarrow>
          (case catch_items ev err batch (errs acc) w1 of
             (Inl e, w2) \<Rightarrow> (Inl e, w2)
           | (Inr es, w2) \<Rightarrow>
               (Inr \<lparr>synced = synced acc, failed = failed acc + length batch, errs = es\<rparr>, w2)))"

text \<open>
  \<open>for (let i = 0; i < items.length; i += batchSize)\<close>. With a batch size of 0 the
  index never advances and the loop does not return: \<open>None\<close>.
\<close>

partial_function (option) sync_loop ::
  "(sync_queue_item list \<Rightarrow> batch_sync_response io) \<Rightarrow> env \<Rightarrow> nat \<Rightarrow> sync_queue_item list \<Rightarrow>
   nat \<Rightarrow> totals \<Rightarrow> world \<Rightarrow> ((js_error + totals) \<times> world) option" where
  "sync_loop pb ev batchSize items i acc w =
     (if i < length items then
        (case sync_batch pb ev (slice items i (i + batchSize)) acc w of
           (Inl e, w1) \<Rightarrow> Some (Inl e, w1)
         | (Inr acc1, w1) \<Rightarrow> sync_loop pb ev batchSize items (i + batchSize) acc1 w1)
      else Some (Inr acc, w))"

declare sync_loop.simps [code]

definition sync_with ::
  "(sync_queue_item list \<Rightarrow> batch_sync_response io) \<Rightarrow> env \<Rightarrow> js_error option \<Rightarrow>
   world \<Rightarrow> ((js_error + sync_result) \<times> world) option" where
  "sync_with pb ev health w =
     (let canConnect = checkConnectivity health in
      if \<not> canConnect then
        (case new_Date w of (now, w1) \<Rightarrow>
           Some (Inr \<lparr>success = 0, synced_items = 0, failed_items = 0,
                      errors = [\<lparr>e_task_id = ''none'', e_operation = ''connectivity'',
                                 e_error = ''No internet connection'', e_timestamp = now\<rparr>]\<rparr>, w1))
      else
        (case getPendingQueueItems w of
           (Inl e, w1) \<Rightarrow> Some (Inl e, w1)
         | (Inr items, w1) \<Rightarrow>
             if length items = 0 then
               Some (Inr \<lparr>success = 1, synced_items = 0, failed_items = 0, errors = []\<rparr>, w1)
             else
               (let batchSize = batchSize_of ev in
                case sync_loop pb ev batchSize items 0 \<lparr>synced = 0, failed = 0, errs = []\<rparr> w1 of
                  None \<Rightarrow> None
                | Some (Inl e, w2) \<Rightarrow> Some (Inl e, w2)
                | Some (Inr acc, w2) \<Rightarrow>
                    Some (Inr \<lparr>success = (if failed acc = 0 then 1 else 0),
                               synced_items = synced acc,
                               failed_items = failed acc,
                               errors = errs acc\<rparr>, w2))))"

definition sync :: "env \<Rightarrow> js_error option \<Rightarrow> world \<Rightarrow> ((js_error + sync_result) \<times> world) option" where
  "sync ev health w = sync_with (processBatch ev) ev health w"

section \<open>Fault-free schedules and concrete worlds\<close>

text \<open>No storage error is scheduled: every remaining entry of the schedule is \<open>None\<close>.\<close>

definition no_faults :: "world \<Rightarrow> bool" where
  "no_faults w = list_all (\<lambda>f. f = None) (faults w)"

text \<open>
  Two tasks and three queued mutations: \<open>q1\<close> and \<open>q2\<close> are a create and a later
  update of task \<open>t1\<close>, \<open>q3\<close> is the create of task \<open>t2\<close>.
\<close>

definition item_q1 :: sync_queue_item where
  "item_q1 = \<lparr>q_id = ''q1'', q_task_id = ''t1'', q_operation = Create, q_data = ''{}'',
     q_created_at = 100, q_retry_count = 0, q_error_message = None, q_status = Pending,
     q_synced_at = None\<rparr>"

definition item_q2 :: sync_queue_item where
  "item_q2 = \<lparr>q_id = ''q2'', q_task_id = ''t1'', q_operation = Update, q_data = ''{}'',
     q_created_at = 200, q_retry_count = 0, q_error_message = None, q_status = Pending,
     q_synced_at = None\<rparr>"

definition item_q3 :: sync_queue_item where
  "item_q3 = \<lparr>q_id = ''q3'', q_task_id = ''t2'', q_operation = Create, q_data = ''{}'',
     q_created_at = 300, q_retry_count = 0, q_error_message = None, q_status = Pending,
     q_synced_at = None\<rparr>"

definition task_t1 :: task where
  "task_t1 = \<lparr>t_id = ''t1'', t_title = ''A'', t_description = ''first'', t_completed = False,
     t_created_at = 90, t_updated_at = Some 200, t_is_deleted = False,
     t_sync_status = SyncPending, t_server_id = None, t_last_synced_at = None\<rparr>"

definition task_t2 :: task where
  "task_t2 = \<lparr>t_id = ''t2'', t_title = ''B'', t_description = ''second'', t_completed = False,
     t_created_at = 290, t_updated_at = Some 300, t_is_deleted = False,
     t_sync_status = SyncPending, t_server_id = None, t_last_synced_at = None\<rparr>"

definition example_world :: world where
  "example_world = \<lparr>tasks = [task_t1, task_t2], sync_queue = [item_q1, item_q2, item_q3],
     clock = 1000, ticks = [5, 5, 5, 5, 5, 5, 5, 5], faults = []\<rparr>"

definition default_env :: env where
  "default_env = \<lparr>SYNC_BATCH_SIZE = None, SYNC_RETRY_ATTEMPTS = None\<rparr>"

definition strict_env :: env where
  "strict_env = \<lparr>SYNC_BATCH_SIZE = None, SYNC_RETRY_ATTEMPTS = Some 1\<rparr>"

text \<open>The example world with a storage error scheduled for the next database call.\<close>

definition faulty_world :: world where
  "faulty_world = example_world\<lparr>faults := [Some ''disk I/O error'']\<rparr>"

section \<open>The cycle as a sequence of batches\<close>

text \<open>
  The partition the spec describes: consecutive batches of at most \<open>n\<close> items, in
  order. (With \<open>n = 0\<close> there is no such partition; the loop of \<open>sync\<close> does not
  return then.)
\<close>

function batches :: "nat \<Rightarrow> 'a list \<Rightarrow> 'a list list" where
  "batches n xs = (if n = 0 \<or> xs = [] then [] else take n xs # batches n (drop n xs))"
  by pat_completeness auto
termination
  by (relation "measure (\<lambda>(n, xs). length xs)") auto

declare batches.simps [simp del]

text \<open>The loop of \<open>sync\<close>, as a recursion over the list of its batches.\<close>

fun run_batches ::
  "(sync_queue_item list \<Rightarrow> batch_sync_response io) \<Rightarrow> env \<Rightarrow> sync_queue_item list list \<Rightarrow>
   totals \<Rightarrow> totals io" where
  "run_batches pb ev [] acc w = (Inr acc, w)"
| "run_batches pb ev (b # bs) acc w =
     (case sync_batch pb ev b acc w of
        (Inl e, w1) \<Rightarrow> (Inl e, w1)
      | (Inr acc1, w1) \<Rightarrow> run_batches pb ev bs acc1 w1)"

text \<open>
  What one batch contributes to the totals when it is run from the world \<open>w\<close> with
  fresh counters, for each batch of the list in turn; and the contributions of the batches
  of a whole cycle.
\<close>

fun batch_reports ::
  "(sync_queue_item list \<Rightarrow> batch_sync_response io) \<Rightarrow> env \<Rightarrow> sync_queue_item list list \<Rightarrow>
   world \<Rightarrow> totals list" where
  "batch_reports pb ev [] w = []"
| "batch_reports pb ev (b # bs) w =
     (case sync_batch pb ev b \<lparr>synced = 0, failed = 0, errs = []\<rparr> w of
        (Inl e, w1) \<Rightarrow> []
      | (Inr d, w1) \<Rightarrow> d # batch_reports pb ev bs w1)"

definition cycle_reports :: "env \<Rightarrow> world \<Rightarrow> totals list" where
  "cycle_reports ev w =
     (case getPendingQueueItems w of
        (Inl e, w1) \<Rightarrow> []
      | (Inr items, w1) \<Rightarrow> batch_reports (processBatch ev) ev (batches (batchSize_of ev) items) w1)"

text \<open>A batch size of 2, and a world whose fourth database call fails.\<close>

definition pair_env :: env where
  "pair_env = \<lparr>SYNC_BATCH_SIZE = Some 2, SYNC_RETRY_ATTEMPTS = None\<rparr>"

definition partial_failure_world :: world where
  "partial_failure_world = example_world\<lparr>faults := [None, None, None, Some ''disk I/O error'']\<rparr>"

text \<open>
  Two pending items enqueued in the same millisecond, stored in the order \<open>b\<close>,
  \<open>a\<close>; and the example queue stored out of creation order.
\<close>

definition item_b :: sync_queue_item where
  "item_b = \<lparr>q_id = ''b'', q_task_id = ''t1'', q_operation = Create, q_data = ''{}'',
     q_created_at = 100, q_retry_count = 0, q_error_message = None, q_status = Pending,
     q_synced_at = None\<rparr>"

definition item_a :: sync_queue_item where
  "item_a = \<lparr>q_id = ''a'', q_task_id = ''t2'', q_operation = Create, q_data = ''{}'',
     q_created_at = 100, q_retry_count = 0, q_error_message = None, q_status = Pending,
     q_synced_at = None\<rparr>"

definition tie_world :: world where
  "tie_world = example_world\<lparr>sync_queue := [item_b, item_a]\<rparr>"

definition shuffled_world :: world where
  "shuffled_world = example_world\<lparr>sync_queue := [item_q3, item_q1, item_q2]\<rparr>"

text \<open>
  The fields of a task that, within the sync service, only \<open>resolveConflict\<close>
  writes (with the id, to tell the tasks apart); and the operations that leave them as
  they are for every task.
\<close>

definition task_content :: "task \<Rightarrow> string \<times> string \<times> string \<times> bool \<times> int option" where
  "task_content t = (t_id t, t_title t, t_description t, t_completed t, t_updated_at t)"

definition keeps_content :: "(world \<Rightarrow> 'a \<times> world) \<Rightarrow> bool" where
  "keeps_content m = (\<forall>w. map task_content (tasks (snd (m w))) = map task_content (tasks w))"

text \<open>
  The two loops of \<open>processBatch\<close>: the one of its \<open>try\<close> block, which marks each
  item's task and queue row as synced, and the one of its \<open>catch\<close> clause, which marks
  each item's task as in error and calls \<open>handleSyncError\<close> for the item. And the
  world a cycle is in after the pending items were read, when the third database call
  from there (the first \<open>markAsSynced\<close>) fails.
\<close>

definition mark_items_synced :: "sync_queue_item list \<Rightarrow> unit io" where
  "mark_items_synced items =
     for_each (\<lambda>item. and_then (updateSyncStatus (q_task_id item) SyncSynced None)
                        (\<lambda>_. markAsSynced (q_id item))) items"

definition mark_items_failed :: "env \<Rightarrow> js_error \<Rightarrow> sync_queue_item list \<Rightarrow> unit io" where
  "mark_items_failed ev error items =
     for_each (\<lambda>item. and_then (updateSyncStatus (q_task_id item) SyncError None)
                        (\<lambda>_. handleSyncError ev item error)) items"


section \<open>Basic facts about the storage layer\<close>

lemma db_call_no_faults:
  "no_faults w \<Longrightarrow>
   db_call f w = (case f (w\<lparr>faults := tl (faults w)\<rparr>) of (v, w') \<Rightarrow> (Inr v, w'))"
proof (cases "faults w")
  case Nil
  then show ?thesis by (simp add: db_call_def)
next
  case (Cons a fs)
  assume "no_faults w"
  with Cons have "a = None" by (simp add: no_faults_def)
  with Cons show ?thesis by (simp add: db_call_def)
qed

lemma no_faults_tl: "no_faults w \<Longrightarrow> no_faults (w\<lparr>faults := tl (faults w)\<rparr>)"
  by (cases "faults w") (simp_all add: no_faults_def)

lemma no_faults_new_Date: "no_faults (snd (new_Date w)) = no_faults w"
  by (simp add: new_Date_def no_faults_def)

lemma no_faults_example_world: "no_faults example_world"
  by (simp add: no_faults_def example_world_def)

lemma markAsSynced_no_faults:
  assumes "no_faults w"
  shows "markAsSynced q w =
     (Inr (), w\<lparr>clock := clock (snd (new_Date w)), ticks := tl (ticks w),
               faults := tl (faults w),
               sync_queue := sql_mark_synced (clock w) q (sync_queue w)\<rparr>)"
proof -
  let ?w1 = "w\<lparr>clock := clock w + (case ticks w of [] \<Rightarrow> 0 | d # _ \<Rightarrow> int d),
               ticks := tl (ticks w)\<rparr>"
  have nd: "new_Date w = (clock w, ?w1)"
    by (simp add: new_Date_def)
  have nf: "no_faults ?w1"
    using assms by (simp add: no_faults_def)
  show ?thesis
    by (simp add: markAsSynced_def nd db_call_no_faults [OF nf])
qed

lemma markAsSynced_queue:
  "no_faults w \<Longrightarrow>
   sync_queue (snd (markAsSynced q w)) = sql_mark_synced (clock w) q (sync_queue w)"
  by (simp add: markAsSynced_no_faults)

lemma markAsSynced_keeps_no_faults:
  assumes "no_faults w"
  shows "no_faults (snd (markAsSynced q w))"
proof -
  have "no_faults (w\<lparr>faults := tl (faults w)\<rparr>)"
    using assms by (rule no_faults_tl)
  then show ?thesis
    by (simp add: markAsSynced_no_faults [OF assms] no_faults_def)
qed

lemma map_id_mark_synced: "map q_id (sql_mark_synced now q rows) = map q_id rows"
  by (induction rows) (simp_all add: sql_mark_synced_def)

lemma filter_other_mark_synced:
  "filter (\<lambda>r. q_id r \<noteq> q) (sql_mark_synced now q rows) = filter (\<lambda>r. q_id r \<noteq> q) rows"
  by (induction rows) (simp_all add: sql_mark_synced_def)

lemma in_mark_synced:
  assumes "r \<in> set (sql_mark_synced now q rows)" and "q_id r = q"
  shows "q_status r = Synced \<and> q_synced_at r = Some now"
proof -
  from assms(1) obtain r0 where
    "r = (if q_id r0 = q then r0\<lparr>q_status := Synced, q_synced_at := Some now\<rparr> else r0)"
    unfolding sql_mark_synced_def set_map by blast
  with assms(2) show ?thesis
    by (cases "q_id r0 = q") simp_all
qed

lemma mark_synced_twice:
  "sql_mark_synced n2 q (sql_mark_synced n1 q rows) = sql_mark_synced n2 q rows"
  by (induction rows) (simp_all add: sql_mark_synced_def)

section \<open>Marking a queue item as synced\<close>

text \<open>
  C5, as stated: a second \<open>markAsSynced\<close> on the same item does not change
  \<open>synced_at\<close>. It does: the statement has no guard on the status, so the second call
  writes the time of the second call. Here the first call stores 1000 and the second 1005.
\<close>

theorem markAsSynced_twice_counterexample:
  "map q_synced_at (sync_queue (snd (markAsSynced ''q1'' example_world)))
     = [Some 1000, None, None]
   \<and> map q_synced_at
        (sync_queue (snd (markAsSynced ''q1'' (snd (markAsSynced ''q1'' example_world)))))
     = [Some 1005, None, None]"
  by (simp add: markAsSynced_def new_Date_def db_call_def example_world_def
      item_q1_def item_q2_def item_q3_def sql_mark_synced_def)

text \<open>
  C5, amended: when no storage error occurs, two calls of \<open>markAsSynced\<close> on the same
  item both return normally and leave every row with that id at status \<open>synced\<close>, with
  \<open>synced_at\<close> equal to the clock reading of the second call (the first call's value is
  overwritten); the other rows and the order of the queue are unchanged.
\<close>

theorem markAsSynced_twice:
  assumes "no_faults w"
  shows "fst (markAsSynced q w) = Inr ()
     \<and> fst (markAsSynced q (snd (markAsSynced q w))) = Inr ()
     \<and> map q_id (sync_queue (snd (markAsSynced q (snd (markAsSynced q w)))))
         = map q_id (sync_queue w)
     \<and> (\<forall>r \<in> set (sync_queue (snd (markAsSynced q (snd (markAsSynced q w))))).
           q_id r = q \<longrightarrow>
             q_status r = Synced \<and> q_synced_at r = Some (clock (snd (markAsSynced q w))))
     \<and> filter (\<lambda>r. q_id r \<noteq> q) (sync_queue (snd (markAsSynced q (snd (markAsSynced q w)))))
         = filter (\<lambda>r. q_id r \<noteq> q) (sync_queue w)"
proof -
  let ?w1 = "snd (markAsSynced q w)"
  let ?w2 = "snd (markAsSynced q ?w1)"
  have nf1: "no_faults ?w1"
    using assms by (rule markAsSynced_keeps_no_faults)
  have r1: "fst (markAsSynced q w) = Inr ()"
    by (simp add: markAsSynced_no_faults [OF assms])
  have r2: "fst (markAsSynced q ?w1) = Inr ()"
    by (simp add: markAsSynced_no_faults [OF nf1])
  have q2: "sync_queue ?w2 = sql_mark_synced (clock ?w1) q (sync_queue w)"
    by (simp add: markAsSynced_queue [OF nf1] markAsSynced_queue [OF assms] mark_synced_twice)
  have a: "map q_id (sync_queue ?w2) = map q_id (sync_queue w)"
    by (simp add: q2 map_id_mark_synced)
  have b: "\<forall>r \<in> set (sync_queue ?w2). q_id r = q \<longrightarrow>
             q_status r = Synced \<and> q_synced_at r = Some (clock ?w1)"
    unfolding q2 using in_mark_synced by blast
  have c: "filter (\<lambda>r. q_id r \<noteq> q) (sync_queue ?w2) = filter (\<lambda>r. q_id r \<noteq> q) (sync_queue w)"
    by (simp add: q2 filter_other_mark_synced)
  from r1 r2 a b c show ?thesis by (intro conjI)
qed

theorem markAsSynced_twice_witness:
  "no_faults example_world
   \<and> fst (markAsSynced ''q1'' (snd (markAsSynced ''q1'' example_world))) = Inr ()
   \<and> map q_id (sync_queue (snd (markAsSynced ''q1'' (snd (markAsSynced ''q1'' example_world)))))
       = [''q1'', ''q2'', ''q3'']
   \<and> map q_status (sync_queue (snd (markAsSynced ''q1'' (snd (markAsSynced ''q1'' example_world)))))
       = [Synced, Pending, Pending]
   \<and> map q_synced_at (sync_queue (snd (markAsSynced ''q1'' (snd (markAsSynced ''q1'' example_world)))))
       = [Some 1005, None, None]"
proof -
  have i: "map q_id (sync_queue example_world) = [''q1'', ''q2'', ''q3'']"
    by (simp add: example_world_def item_q1_def item_q2_def item_q3_def)
  have s: "map q_status (sync_queue (snd (markAsSynced ''q1'' (snd (markAsSynced ''q1'' example_world)))))
       = [Synced, Pending, Pending]"
    and t: "map q_synced_at (sync_queue (snd (markAsSynced ''q1'' (snd (markAsSynced ''q1'' example_world)))))
       = [Some 1005, None, None]"
    by (simp_all add: markAsSynced_def new_Date_def db_call_def example_world_def
        item_q1_def item_q2_def item_q3_def sql_mark_synced_def)
  from markAsSynced_twice [OF no_faults_example_world, of "''q1''"]
  show ?thesis
    unfolding i using no_faults_example_world s t by blast
qed

section \<open>Recording a failure\<close>

lemmas eval_defs = handleSyncError_def updateSyncStatus_def markAsSynced_def try_catch_def
  and_then_def db_call_def console_log_def new_Date_def Let_def maxRetries_of_def batchSize_of_def
  sql_get_retry_count_def sql_update_retry_def sql_update_task_status_def
  sql_delete_queue_of_task_def sql_mark_synced_def
  example_world_def item_q1_def item_q2_def item_q3_def task_t1_def task_t2_def
  default_env_def strict_env_def faulty_world_def

lemma handleSyncError_no_faults:
  assumes "no_faults w"
  shows "handleSyncError ev item err w =
     (Inr (), w\<lparr>faults := tl (tl (faults w)),
        sync_queue := sql_update_retry
           ((case sql_get_retry_count (q_id item) (sync_queue w) of None \<Rightarrow> 0 | Some n \<Rightarrow> n) + 1)
           (message err)
           (if maxRetries_of ev
                 \<le> (case sql_get_retry_count (q_id item) (sync_queue w) of None \<Rightarrow> 0 | Some n \<Rightarrow> n) + 1
            then Failed else Pending)
           (q_id item) (sync_queue w)\<rparr>)"
proof -
  have nf1: "no_faults (w\<lparr>faults := tl (faults w)\<rparr>)"
    using assms by (rule no_faults_tl)
  show ?thesis
    by (simp add: handleSyncError_def try_catch_def and_then_def db_call_no_faults [OF assms]
        db_call_no_faults [OF nf1] console_log_def Let_def)
qed

lemma find_update_retry:
  "find (\<lambda>r. q_id r = k) (sql_update_retry a b c k rows)
     = map_option (\<lambda>r. r\<lparr>q_retry_count := a, q_error_message := Some b, q_status := c\<rparr>)
         (find (\<lambda>r. q_id r = k) rows)"
  by (induction rows) (simp_all add: sql_update_retry_def)

lemma filter_other_update_retry:
  "filter (\<lambda>r. q_id r \<noteq> k) (sql_update_retry a b c k rows) = filter (\<lambda>r. q_id r \<noteq> k) rows"
  by (induction rows) (simp_all add: sql_update_retry_def)

lemma map_id_update_retry: "map q_id (sql_update_retry a b c k rows) = map q_id rows"
  by (induction rows) (simp_all add: sql_update_retry_def)

text \<open>
  C1, as stated, ends with: \<open>handleSyncError\<close> returns whether the failure was permanent.
  The method is declared \<open>Promise<void>\<close>: for the same item and error it returns the same
  (empty) value under a retry ceiling of 1, where the failure is permanent and the row
  becomes \<open>failed\<close>, and under the default ceiling of 3, where the row stays
  \<open>pending\<close>.
\<close>

theorem handleSyncError_return_counterexample:
  "fst (handleSyncError strict_env item_q1 (JsError ''boom'') example_world)
     = fst (handleSyncError default_env item_q1 (JsError ''boom'') example_world)
   \<and> map q_status
        (sync_queue (snd (handleSyncError strict_env item_q1 (JsError ''boom'') example_world)))
       = [Failed, Pending, Pending]
   \<and> map q_status
        (sync_queue (snd (handleSyncError default_env item_q1 (JsError ''boom'') example_world)))
       = [Pending, Pending, Pending]"
  by (simp add: eval_defs)

text \<open>
  C1, amended: for a queue item whose row is in the queue, and when no storage error
  occurs, \<open>handleSyncError\<close> increments the row's \<open>retry_count\<close> by exactly one, stores
  the error message, and sets the status to \<open>failed\<close> if the new count has reached the
  configured maximum and to \<open>pending\<close> otherwise; the other rows are unchanged; it
  returns no value.
\<close>

theorem handleSyncError_effect:
  assumes "no_faults w" and "find (\<lambda>r. q_id r = q_id item) (sync_queue w) = Some r"
  shows "fst (handleSyncError ev item err w) = Inr ()
     \<and> find (\<lambda>r. q_id r = q_id item) (sync_queue (snd (handleSyncError ev item err w)))
         = Some (r\<lparr>q_retry_count := q_retry_count r + 1,
                   q_error_message := Some (message err),
                   q_status := (if q_retry_count r + 1 \<ge> maxRetries_of ev then Failed else Pending)\<rparr>)
     \<and> filter (\<lambda>r. q_id r \<noteq> q_id item) (sync_queue (snd (handleSyncError ev item err w)))
         = filter (\<lambda>r. q_id r \<noteq> q_id item) (sync_queue w)
     \<and> map q_id (sync_queue (snd (handleSyncError ev item err w))) = map q_id (sync_queue w)"
proof -
  have g: "sql_get_retry_count (q_id item) (sync_queue w) = Some (q_retry_count r)"
    using assms(2) by (simp add: sql_get_retry_count_def)
  show ?thesis
    by (simp add: handleSyncError_no_faults [OF assms(1)] g find_update_retry assms(2)
        filter_other_update_retry map_id_update_retry)
qed

theorem handleSyncError_effect_witness:
  "no_faults example_world
   \<and> find (\<lambda>r. q_id r = q_id item_q1) (sync_queue example_world) = Some item_q1
   \<and> maxRetries_of default_env = 3
   \<and> find (\<lambda>r. q_id r = q_id item_q1)
        (sync_queue (snd (handleSyncError default_env item_q1 (JsError ''boom'') example_world)))
       = Some (item_q1\<lparr>q_retry_count := 1, q_error_message := Some ''boom'', q_status := Pending\<rparr>)"
proof -
  have f: "find (\<lambda>r. q_id r = q_id item_q1) (sync_queue example_world) = Some item_q1"
    by (simp add: example_world_def item_q1_def)
  have m: "maxRetries_of default_env = 3"
    by (simp add: maxRetries_of_def default_env_def)
  have r: "q_retry_count item_q1 = 0"
    by (simp add: item_q1_def)
  from handleSyncError_effect [OF no_faults_example_world f, of default_env "JsError ''boom''"]
  show ?thesis
    using no_faults_example_world f by (simp add: m r)
qed

section \<open>The conflict resolver\<close>

lemma resolveConflict_no_faults:
  assumes "no_faults w"
  shows "fst (resolveConflict l s w) =
     Inr (if js_gt (t_updated_at l) (t_updated_at s) then l else s)"
proof -
  let ?w1 = "w\<lparr>clock := clock w + (case ticks w of [] \<Rightarrow> 0 | d # _ \<Rightarrow> int d),
               ticks := tl (ticks w)\<rparr>"
  have nd: "new_Date w = (clock w, ?w1)"
    by (simp add: new_Date_def)
  have nf: "no_faults ?w1"
    using assms by (simp add: no_faults_def)
  show ?thesis
    by (simp add: resolveConflict_def Let_def and_then_def nd db_call_no_faults [OF nf])
qed

text \<open>
  C2: for a local and a remote version with valid timestamps, \<open>resolveConflict\<close> returns
  the local version when its \<open>updated_at\<close> is strictly greater, the remote version when
  the remote's is strictly greater, and the remote version when the two are equal. The
  result is a function of the two versions alone. (The method also writes the winner
  to the \<open>tasks\<close> table; it returns once that write has succeeded.)
\<close>

theorem resolveConflict_last_write_wins:
  assumes "no_faults w" and "t_updated_at l = Some a" and "t_updated_at s = Some b"
  shows "(a > b \<longrightarrow> fst (resolveConflict l s w) = Inr l)
       \<and> (b > a \<longrightarrow> fst (resolveConflict l s w) = Inr s)
       \<and> (a = b \<longrightarrow> fst (resolveConflict l s w) = Inr s)"
  using assms(2,3) by (simp add: resolveConflict_no_faults [OF assms(1)] js_gt_def)

theorem resolveConflict_last_write_wins_witness:
  "no_faults example_world
   \<and> fst (resolveConflict task_t2 task_t1 example_world) = Inr task_t2
   \<and> fst (resolveConflict task_t1 task_t2 example_world) = Inr task_t2
   \<and> fst (resolveConflict task_t1 (task_t1\<lparr>t_title := ''remote''\<rparr>) example_world)
       = Inr (task_t1\<lparr>t_title := ''remote''\<rparr>)"
proof -
  have u1: "t_updated_at task_t1 = Some 200" and u2: "t_updated_at task_t2 = Some 300"
    and u3: "t_updated_at (task_t1\<lparr>t_title := ''remote''\<rparr>) = Some 200"
    by (simp_all add: task_t1_def task_t2_def)
  from resolveConflict_last_write_wins [OF no_faults_example_world u2 u1]
       resolveConflict_last_write_wins [OF no_faults_example_world u1 u2]
       resolveConflict_last_write_wins [OF no_faults_example_world u1 u3]
  show ?thesis
    using no_faults_example_world by simp
qed

section \<open>A cycle without connectivity\<close>

text \<open>
  C3: when the connectivity probe fails, \<open>sync\<close> returns at once with zero synced and
  zero failed items and exactly one error entry, tagged \<open>connectivity\<close>; both tables and
  the fault schedule are as before, so the pending items read after the cycle are the
  ones read before it, and no retry count has changed.
\<close>

theorem sync_aborts_when_offline:
  "\<exists>w'. sync ev (Some e) w =
      Some (Inr \<lparr>success = 0, synced_items = 0, failed_items = 0,
                 errors = [\<lparr>e_task_id = ''none'', e_operation = ''connectivity'',
                            e_error = ''No internet connection'', e_timestamp = clock w\<rparr>]\<rparr>, w')
     \<and> sync_queue w' = sync_queue w \<and> tasks w' = tasks w \<and> faults w' = faults w
     \<and> fst (getPendingQueueItems w') = fst (getPendingQueueItems w)
     \<and> map q_retry_count (sync_queue w') = map q_retry_count (sync_queue w)"
proof -
  let ?w1 = "snd (new_Date w)"
  have s: "sync ev (Some e) w =
      Some (Inr \<lparr>success = 0, synced_items = 0, failed_items = 0,
                 errors = [\<lparr>e_task_id = ''none'', e_operation = ''connectivity'',
                            e_error = ''No internet connection'', e_timestamp = clock w\<rparr>]\<rparr>, ?w1)"
    by (simp add: sync_def sync_with_def checkConnectivity_def new_Date_def)
  have q: "sync_queue ?w1 = sync_queue w" and t: "tasks ?w1 = tasks w"
    and f: "faults ?w1 = faults w"
    by (simp_all add: new_Date_def)
  have p: "fst (getPendingQueueItems ?w1) = fst (getPendingQueueItems w)"
    by (simp add: getPendingQueueItems_def db_call_def q f split: list.splits option.splits)
  from s q t f p show ?thesis by simp
qed

section \<open>Storage errors inside the bookkeeping methods\<close>

lemma try_catch_console_log:
  "fst (try_catch body (\<lambda>e. console_log) w) = Inr ()"
proof (cases "body w")
  case (Pair r w1)
  then show ?thesis
    by (cases r) (simp_all add: try_catch_def console_log_def)
qed

lemma updateSyncStatus_returns: "fst (updateSyncStatus taskId st serverData w) = Inr ()"
  unfolding updateSyncStatus_def by (rule try_catch_console_log)

lemma handleSyncError_returns: "fst (handleSyncError ev item err w) = Inr ()"
  unfolding handleSyncError_def Let_def by (rule try_catch_console_log)

lemma updateSyncStatus_first_fault:
  assumes "faults w = Some m # fs"
  shows "tasks (snd (updateSyncStatus taskId st serverData w)) = tasks w"
    and "sync_queue (snd (updateSyncStatus taskId st serverData w)) = sync_queue w"
    and "faults (snd (updateSyncStatus taskId st serverData w)) = fs"
  using assms
  by (simp_all add: updateSyncStatus_def try_catch_def and_then_def db_call_def
      console_log_def new_Date_def Let_def)

lemma handleSyncError_first_fault:
  assumes "faults w = Some m # fs"
  shows "tasks (snd (handleSyncError ev item err w)) = tasks w"
    and "sync_queue (snd (handleSyncError ev item err w)) = sync_queue w"
    and "faults (snd (handleSyncError ev item err w)) = fs"
  using assms
  by (simp_all add: handleSyncError_def try_catch_def and_then_def db_call_def
      console_log_def Let_def)

text \<open>
  C9, amended: a storage error inside \<open>updateSyncStatus\<close> or \<open>handleSyncError\<close> is
  caught and logged inside the method. Both methods return normally to their caller
  whatever the storage does; when their first database call fails, the rest of the
  method is skipped, so neither table is changed, and the caller carries on.
\<close>

theorem storage_errors_swallowed:
  "fst (updateSyncStatus taskId st serverData w) = Inr ()
   \<and> fst (handleSyncError ev item err w) = Inr ()
   \<and> (\<forall>m fs. faults w = Some m # fs \<longrightarrow>
         tasks (snd (updateSyncStatus taskId st serverData w)) = tasks w
       \<and> sync_queue (snd (updateSyncStatus taskId st serverData w)) = sync_queue w
       \<and> faults (snd (updateSyncStatus taskId st serverData w)) = fs
       \<and> tasks (snd (handleSyncError ev item err w)) = tasks w
       \<and> sync_queue (snd (handleSyncError ev item err w)) = sync_queue w
       \<and> faults (snd (handleSyncError ev item err w)) = fs)"
  using updateSyncStatus_returns handleSyncError_returns
    updateSyncStatus_first_fault handleSyncError_first_fault
  by simp

text \<open>
  C9, as stated: a storage error in these operations is propagated to the caller. With a
  disk error scheduled for the next database call, \<open>updateSyncStatus\<close> and
  \<open>handleSyncError\<close> both return normally; the task's sync status and the retry
  counts are simply not written.
\<close>

theorem storage_error_counterexample:
  "faults faulty_world = [Some ''disk I/O error'']
   \<and> fst (updateSyncStatus ''t1'' SyncSynced None faulty_world) = Inr ()
   \<and> map t_sync_status (tasks (snd (updateSyncStatus ''t1'' SyncSynced None faulty_world)))
       = [SyncPending, SyncPending]
   \<and> fst (handleSyncError default_env item_q1 (JsError ''boom'') faulty_world) = Inr ()
   \<and> map q_retry_count (sync_queue (snd (handleSyncError default_env item_q1 (JsError ''boom'') faulty_world)))
       = [0, 0, 0]"
  by (simp add: eval_defs)

theorem storage_errors_swallowed_witness:
  "faults faulty_world = Some ''disk I/O error'' # []
   \<and> fst (updateSyncStatus ''t1'' SyncSynced None faulty_world) = Inr ()
   \<and> tasks (snd (updateSyncStatus ''t1'' SyncSynced None faulty_world)) = tasks faulty_world
   \<and> sync_queue (snd (handleSyncError default_env item_q1 (JsError ''boom'') faulty_world))
       = sync_queue faulty_world"
proof -
  have f: "faults faulty_world = Some ''disk I/O error'' # []"
    by (simp add: faulty_world_def)
  from storage_errors_swallowed [of "''t1''" SyncSynced None faulty_world default_env item_q1 "JsError ''boom''"] f
  show ?thesis by blast
qed

section \<open>Processing a batch\<close>

lemma for_each_returns:
  assumes "\<And>item v. fst (body item v) = Inr ()"
  shows "fst (for_each body items w) = Inr ()"
proof (induction items arbitrary: w)
  case Nil
  show ?case by simp
next
  case (Cons item rest)
  obtain w1 where b: "body item w = (Inr (), w1)"
    using assms [of item w] by (cases "body item w") simp
  show ?case
    by (simp add: and_then_def b Cons.IH)
qed

lemma and_then_returns:
  assumes "\<And>v. fst (m v) = Inr ()" and "\<And>v. fst (k v) = Inr ()"
  shows "fst (and_then m (\<lambda>_. k) w) = Inr ()"
proof -
  obtain w1 where b: "m w = (Inr (), w1)"
    using assms(1) [of w] by (cases "m w") simp
  show ?thesis by (simp add: and_then_def b assms(2))
qed

lemma and_then_return_value:
  assumes "fst (m v) = Inr ()"
  shows "\<exists>r. fst (and_then m (\<lambda>_ w1. (Inr x, w1)) v) = Inr r"
proof -
  obtain v1 where "m v = (Inr (), v1)"
    using assms by (cases "m v") simp
  then show ?thesis by (simp add: and_then_def)
qed

lemma try_catch_returns:
  assumes "\<And>e v. \<exists>r. fst (handler e v) = Inr r"
  shows "\<exists>r. fst (try_catch body handler w) = Inr r"
proof (cases "body w")
  case (Pair r w1)
  then show ?thesis
    using assms by (cases r) (simp_all add: try_catch_def)
qed

lemma processBatch_returns: "\<exists>r. fst (processBatch ev items w) = Inr r"
proof -
  obtain ts w0 where nd: "new_Date w = (ts, w0)"
    by (cases "new_Date w")
  have h: "fst (for_each (\<lambda>item. and_then (updateSyncStatus (q_task_id item) SyncError None)
                 (\<lambda>_. handleSyncError ev item error)) items v) = Inr ()" for error v
    by (rule for_each_returns) (rule and_then_returns, rule updateSyncStatus_returns, rule handleSyncError_returns)
  show ?thesis
    unfolding processBatch_def nd prod.case Let_def
    by (rule try_catch_returns) (rule and_then_return_value, rule h)
qed

lemmas eval_batch_defs = processBatch_def for_each.simps

text \<open>
  C8: no pending queue item is deleted, and marking one item of a record as synced does
  not remove another pending item of the same record. The code does remove it:
  \<open>updateSyncStatus\<close> deletes by \<open>task_id\<close>. With the batch \<open>[q1]\<close> (what
  \<open>sync\<close> sends first under a batch size of 1), the pending update \<open>q2\<close> of the same
  task is gone after the batch, although it was in no batch.
\<close>

theorem processBatch_deletes_pending_sibling:
  "item_q2 \<in> set (sync_queue example_world) \<and> q_status item_q2 = Pending
   \<and> q_id item_q2 \<noteq> q_id item_q1
   \<and> sync_queue (snd (processBatch default_env [item_q1] example_world)) = [item_q3]"
  by (simp add: eval_batch_defs eval_defs)

section \<open>The loop of a cycle\<close>

lemma batches_Nil: "batches n [] = []"
  by (simp add: batches.simps)

lemma batches_step: "0 < n \<Longrightarrow> xs \<noteq> [] \<Longrightarrow> batches n xs = take n xs # batches n (drop n xs)"
  by (subst batches.simps) simp

lemma sync_loop_batches:
  assumes "0 < n"
  shows "sync_loop pb ev n items i acc w = Some (run_batches pb ev (batches n (drop i items)) acc w)"
proof (induction "length items - i" arbitrary: i acc w rule: less_induct)
  case less
  show ?case
  proof (cases "i < length items")
    case False
    then show ?thesis
      by (subst sync_loop.simps) (simp add: batches_Nil)
  next
    case True
    then have ne: "drop i items \<noteq> []" by simp
    have b: "batches n (drop i items) = slice items i (i + n) # batches n (drop (i + n) items)"
      using batches_step [OF assms ne] by (simp add: slice_def add.commute)
    have m: "length items - (i + n) < length items - i"
      using True assms by arith
    show ?thesis
    proof (cases "sync_batch pb ev (slice items i (i + n)) acc w")
      case (Pair r w1)
      show ?thesis
      proof (cases r)
        case (Inl e)
        with Pair True show ?thesis
          by (subst sync_loop.simps) (simp add: b)
      next
        case (Inr acc1)
        with Pair True show ?thesis
          by (subst sync_loop.simps) (simp add: b less [OF m])
      qed
    qed
  qed
qed

lemma catch_items_acc:
  "catch_items ev err items es w =
     (case catch_items ev err items [] w of
        (Inl e, w2) \<Rightarrow> (Inl e, w2)
      | (Inr d, w2) \<Rightarrow> (Inr (es @ d), w2))"
proof (induction items arbitrary: es w)
  case Nil
  show ?case by simp
next
  case (Cons item rest)
  obtain now w1 where nd: "new_Date w = (now, w1)"
    by (cases "new_Date w")
  obtain r w2 where h: "handleSyncError ev item err w1 = (r, w2)"
    by (cases "handleSyncError ev item err w1")
  let ?e = "\<lparr>e_task_id = q_task_id item, e_operation = operation_name (q_operation item),
             e_error = message err, e_timestamp = now\<rparr>"
  show ?case
  proof (cases r)
    case (Inl e)
    then show ?thesis by (simp add: nd h and_then_def)
  next
    case (Inr u)
    obtain r3 w3 where c: "catch_items ev err rest [] w2 = (r3, w3)"
      by (cases "catch_items ev err rest [] w2")
    have a: "catch_items ev err rest (es @ [?e]) w2 =
        (case (r3, w3) of (Inl e, w2) \<Rightarrow> (Inl e, w2) | (Inr d, w2) \<Rightarrow> (Inr ((es @ [?e]) @ d), w2))"
      using Cons.IH [of "es @ [?e]" w2] by (simp add: c)
    have b: "catch_items ev err rest [?e] w2 =
        (case (r3, w3) of (Inl e, w2) \<Rightarrow> (Inl e, w2) | (Inr d, w2) \<Rightarrow> (Inr ([?e] @ d), w2))"
      using Cons.IH [of "[?e]" w2] by (simp add: c)
    show ?thesis
      by (cases r3) (simp_all add: nd h Inr and_then_def a b)
  qed
qed

lemma push_failed_acc:
  "push_failed fs es w = (es @ fst (push_failed fs [] w), snd (push_failed fs [] w))"
proof (induction fs arbitrary: es w)
  case Nil
  show ?case by simp
next
  case (Cons f fs)
  obtain now w1 where nd: "new_Date w = (now, w1)"
    by (cases "new_Date w")
  let ?e = "\<lparr>e_task_id = p_client_id f, e_operation = ''sync'',
             e_error = error_or_unknown (p_error f), e_timestamp = now\<rparr>"
  have a: "push_failed fs (es @ [?e]) w1 = ((es @ [?e]) @ fst (push_failed fs [] w1), snd (push_failed fs [] w1))"
    by (rule Cons.IH)
  have b: "push_failed fs [?e] w1 = ([?e] @ fst (push_failed fs [] w1), snd (push_failed fs [] w1))"
    by (rule Cons.IH)
  show ?case
    by (simp add: nd a b)
qed

lemma catch_items_returns: "\<exists>es'. fst (catch_items ev err items es w) = Inr es'"
proof (induction items arbitrary: es w)
  case Nil
  show ?case by simp
next
  case (Cons item rest)
  obtain now w1 where nd: "new_Date w = (now, w1)"
    by (cases "new_Date w")
  obtain w2 where h: "handleSyncError ev item err w1 = (Inr (), w2)"
    using handleSyncError_returns [of ev item err w1] by (cases "handleSyncError ev item err w1") simp
  show ?case
    by (simp add: nd h and_then_def Cons.IH)
qed

lemma sync_batch_returns: "\<exists>acc1. fst (sync_batch pb ev b acc w) = Inr acc1"
proof (cases "pb b w")
  case (Pair r w1)
  show ?thesis
  proof (cases r)
    case (Inl err)
    obtain es' w2 where "catch_items ev err b (errs acc) w1 = (Inr es', w2)"
      using catch_items_returns [of ev err b "errs acc" w1]
      by (cases "catch_items ev err b (errs acc) w1") auto
    with Pair Inl show ?thesis by (simp add: sync_batch_def)
  next
    case (Inr result)
    with Pair show ?thesis
      by (simp add: sync_batch_def Let_def split: prod.splits)
  qed
qed

lemma sync_loop_zero_diverges_aux:
  assumes "sync_loop pb0 ev0 n0 items0 i0 acc0 w0 = Some y0"
  shows "\<not> (n0 = 0 \<and> i0 < length items0)"
proof (rule sync_loop.raw_induct
    [where P = "\<lambda>pb ev n items i acc w y. \<not> (n = 0 \<and> i < length items)", OF _ assms], goal_cases)
  case (1 f pb ev n items i acc w y)
  show ?case
  proof
    assume a: "n = 0 \<and> i < length items"
    obtain acc1 w1 where b: "sync_batch pb ev (slice items i (i + n)) acc w = (Inr acc1, w1)"
      using sync_batch_returns [of pb ev "slice items i (i + n)" acc w]
      by (cases "sync_batch pb ev (slice items i (i + n)) acc w") auto
    from 1(2) a b have c: "f pb ev n items (i + n) acc1 w1 = Some y"
      by simp
    from 1(1) [OF c] a show False by simp
  qed
qed

lemma sync_loop_zero_diverges:
  "i < length items \<Longrightarrow> sync_loop pb ev 0 items i acc w = None"
  using sync_loop_zero_diverges_aux [of pb ev 0 items i acc w]
  by (cases "sync_loop pb ev 0 items i acc w") auto

section \<open>The result of a cycle\<close>

lemma sync_batch_acc:
  "sync_batch pb ev b acc w =
     (case sync_batch pb ev b \<lparr>synced = 0, failed = 0, errs = []\<rparr> w of
        (Inl e, w1) \<Rightarrow> (Inl e, w1)
      | (Inr d, w1) \<Rightarrow>
          (Inr \<lparr>synced = synced acc + synced d, failed = failed acc + failed d,
                errs = errs acc @ errs d\<rparr>, w1))"
proof (cases "pb b w")
  case (Pair r w1)
  show ?thesis
  proof (cases r)
    case (Inl err)
    obtain r2 w2 where c: "catch_items ev err b [] w1 = (r2, w2)"
      by (cases "catch_items ev err b [] w1")
    have a: "catch_items ev err b (errs acc) w1 =
       (case (r2, w2) of (Inl e, w2) \<Rightarrow> (Inl e, w2) | (Inr d, w2) \<Rightarrow> (Inr (errs acc @ d), w2))"
      using catch_items_acc [of ev err b "errs acc" w1] by (simp add: c)
    show ?thesis
      by (cases r2) (simp_all add: sync_batch_def Pair Inl a c)
  next
    case (Inr result)
    let ?fb = "filter (\<lambda>p. p_status p = OutcomeError) (processed_items result)"
    have a: "push_failed ?fb (errs acc) w1 =
        (errs acc @ fst (push_failed ?fb [] w1), snd (push_failed ?fb [] w1))"
      by (rule push_failed_acc)
    show ?thesis
      by (simp add: sync_batch_def Pair Inr Let_def a split: prod.splits)
  qed
qed

lemma run_batches_totals:
  assumes "run_batches pb ev bss acc w = (Inr acc', w')"
  shows "synced acc' = synced acc + sum_list (map synced (batch_reports pb ev bss w))
     \<and> failed acc' = failed acc + sum_list (map failed (batch_reports pb ev bss w))
     \<and> errs acc' = errs acc @ concat (map errs (batch_reports pb ev bss w))"
  using assms
proof (induction bss arbitrary: acc w)
  case Nil
  then show ?case by simp
next
  case (Cons b bss)
  obtain r w1 where z: "sync_batch pb ev b \<lparr>synced = 0, failed = 0, errs = []\<rparr> w = (r, w1)"
    by (cases "sync_batch pb ev b \<lparr>synced = 0, failed = 0, errs = []\<rparr> w")
  show ?case
  proof (cases r)
    case (Inl e)
    have "sync_batch pb ev b acc w = (Inl e, w1)"
      by (subst sync_batch_acc) (simp add: z Inl)
    with Cons.prems show ?thesis by simp
  next
    case (Inr d)
    let ?acc1 = "\<lparr>synced = synced acc + synced d, failed = failed acc + failed d,
                   errs = errs acc @ errs d\<rparr>"
    have s: "sync_batch pb ev b acc w = (Inr ?acc1, w1)"
      by (subst sync_batch_acc) (simp add: z Inr)
    with Cons.prems have "run_batches pb ev bss ?acc1 w1 = (Inr acc', w')"
      by simp
    from Cons.IH [OF this] show ?thesis
      by (simp add: z Inr)
  qed
qed

text \<open>
  C4: a cycle that ran to its end (the probe succeeded and \<open>sync\<close> returned a result)
  reports \<open>success = 1\<close> exactly when its count of failed items is zero, and its
  \<open>synced_items\<close>, \<open>failed_items\<close> and \<open>errors\<close> are the sums and the
  concatenation, in batch order, of what the batches of the cycle contributed.
\<close>

theorem sync_result_totals:
  assumes "sync ev None w = Some (Inr r, w')"
  shows "(success r = 1 \<longleftrightarrow> failed_items r = 0)
     \<and> synced_items r = sum_list (map synced (cycle_reports ev w))
     \<and> failed_items r = sum_list (map failed (cycle_reports ev w))
     \<and> errors r = concat (map errs (cycle_reports ev w))"
proof -
  obtain g w1 where g: "getPendingQueueItems w = (g, w1)"
    by (cases "getPendingQueueItems w")
  show ?thesis
  proof (cases g)
    case (Inl e)
    with assms g show ?thesis
      by (simp add: sync_def sync_with_def checkConnectivity_def)
  next
    case (Inr items)
    show ?thesis
    proof (cases "items = []")
      case True
      with assms g Inr show ?thesis
        by (auto simp: sync_def sync_with_def checkConnectivity_def cycle_reports_def batches_Nil)
    next
      case False
      let ?n = "batchSize_of ev"
      let ?z = "\<lparr>synced = 0, failed = 0, errs = []\<rparr>"
      have pos: "0 < ?n"
      proof (rule ccontr)
        assume "\<not> 0 < ?n"
        then have "sync_loop (processBatch ev) ev ?n items 0 ?z w1 = None"
          using False sync_loop_zero_diverges [of 0 items "processBatch ev" ev ?z w1] by simp
        with assms g Inr False show False
          by (simp add: sync_def sync_with_def checkConnectivity_def)
      qed
      have l: "sync_loop (processBatch ev) ev ?n items 0 ?z w1
          = Some (run_batches (processBatch ev) ev (batches ?n items) ?z w1)"
        using sync_loop_batches [OF pos, of "processBatch ev" ev items 0 ?z w1] by simp
      obtain rr w2 where rb: "run_batches (processBatch ev) ev (batches ?n items) ?z w1 = (rr, w2)"
        by (cases "run_batches (processBatch ev) ev (batches ?n items) ?z w1")
      show ?thesis
      proof (cases rr)
        case (Inl e)
        with assms g Inr False l rb show ?thesis
          by (simp add: sync_def sync_with_def checkConnectivity_def)
      next
        case (Inr acc)
        from assms g \<open>g = Inr items\<close> False l rb Inr
        have r: "r = \<lparr>success = (if failed acc = 0 then 1 else 0), synced_items = synced acc,
                      failed_items = failed acc, errors = errs acc\<rparr>"
          by (simp add: sync_def sync_with_def checkConnectivity_def Let_def)
        from rb Inr have "run_batches (processBatch ev) ev (batches ?n items) ?z w1 = (Inr acc, w2)"
          by simp
        from run_batches_totals [OF this]
        show ?thesis
          by (simp add: r cycle_reports_def g \<open>g = Inr items\<close>)
      qed
    qed
  qed
qed


lemmas eval_sync_defs = sync_def sync_with_def checkConnectivity_def getPendingQueueItems_def
  sql_select_pending_def sync_batch_def slice_def error_or_unknown_def cycle_reports_def
  pair_env_def partial_failure_world_def

lemma batches_pair: "batches 2 [a, b, c] = [[a, b], [c]]"
  by (simp add: batches.simps)




lemma sync_example:
  "map_option fst (sync pair_env None partial_failure_world)
   = Some (Inr \<lparr>success = 0, synced_items = 1, failed_items = 2, errors =
       [\<lparr>e_task_id = ''q1'', e_operation = ''sync'', e_error = ''disk I/O error'', e_timestamp = 1025\<rparr>,
        \<lparr>e_task_id = ''q2'', e_operation = ''sync'', e_error = ''disk I/O error'', e_timestamp = 1030\<rparr>]\<rparr>)"
  by (simp add: sync_loop_batches batches_pair eval_sync_defs eval_batch_defs eval_defs)

lemma reports_example:
  "map synced (cycle_reports pair_env partial_failure_world) = [0, 1]
   \<and> map failed (cycle_reports pair_env partial_failure_world) = [2, 0]"
  by (simp add: batches_pair eval_sync_defs eval_batch_defs eval_defs)

theorem sync_result_totals_witness:
  "map_option fst (sync pair_env None partial_failure_world)
   = Some (Inr \<lparr>success = 0, synced_items = 1, failed_items = 2, errors =
       [\<lparr>e_task_id = ''q1'', e_operation = ''sync'', e_error = ''disk I/O error'', e_timestamp = 1025\<rparr>,
        \<lparr>e_task_id = ''q2'', e_operation = ''sync'', e_error = ''disk I/O error'', e_timestamp = 1030\<rparr>]\<rparr>)
   \<and> sum_list (map synced (cycle_reports pair_env partial_failure_world)) = 1
   \<and> sum_list (map failed (cycle_reports pair_env partial_failure_world)) = 2
   \<and> length (concat (map errs (cycle_reports pair_env partial_failure_world))) = 2"
proof -
  let ?r = "\<lparr>success = 0, synced_items = 1, failed_items = 2, errors =
       [\<lparr>e_task_id = ''q1'', e_operation = ''sync'', e_error = ''disk I/O error'', e_timestamp = 1025\<rparr>,
        \<lparr>e_task_id = ''q2'', e_operation = ''sync'', e_error = ''disk I/O error'', e_timestamp = 1030\<rparr>]\<rparr>"
  obtain w' where s: "sync pair_env None partial_failure_world = Some (Inr ?r, w')"
    using sync_example by (cases "sync pair_env None partial_failure_world") auto
  from sync_result_totals [OF s]
  have a: "sum_list (map synced (cycle_reports pair_env partial_failure_world)) = 1"
    and b: "sum_list (map failed (cycle_reports pair_env partial_failure_world)) = 2"
    and c: "concat (map errs (cycle_reports pair_env partial_failure_world)) = errors ?r"
    by simp_all
  show ?thesis
    by (simp add: sync_example a b c)
qed

section \<open>Order of the pending items and of the batches\<close>

text \<open>
  C6, as stated, has ties on \<open>created_at\<close> broken by \<open>id\<close>. The query orders by
  \<open>created_at\<close> alone: two pending items with the same \<open>created_at\<close> come back in
  storage order, here \<open>b\<close> before \<open>a\<close>.
\<close>

theorem pending_ties_counterexample:
  "fst (getPendingQueueItems tie_world) = Inr [item_b, item_a]
   \<and> q_created_at item_b = q_created_at item_a
   \<and> q_id item_b = ''b'' \<and> q_id item_a = ''a''"
  by (simp add: getPendingQueueItems_def db_call_def sql_select_pending_def tie_world_def
      example_world_def item_a_def item_b_def)

lemma getPending_items:
  assumes "getPendingQueueItems w = (Inr items, w1)"
  shows "items = sql_select_pending (sync_queue w)"
proof (cases "faults w")
  case Nil
  with assms show ?thesis
    by (simp add: getPendingQueueItems_def db_call_def)
next
  case (Cons a fs)
  with assms show ?thesis
    by (cases a) (simp_all add: getPendingQueueItems_def db_call_def)
qed

lemma concat_batches: "0 < n \<Longrightarrow> concat (batches n xs) = xs"
proof (induction n xs rule: batches.induct)
  case (1 n xs)
  show ?case
  proof (cases "xs = []")
    case True
    then show ?thesis by (simp add: batches_Nil)
  next
    case False
    with 1 show ?thesis
      by (simp add: batches_step)
  qed
qed

lemma batches_bound: "b \<in> set (batches n xs) \<Longrightarrow> b \<noteq> [] \<and> length b \<le> n"
proof (induction n xs rule: batches.induct)
  case (1 n xs)
  show ?case
  proof (cases "n = 0 \<or> xs = []")
    case True
    with 1(2) show ?thesis by (simp add: batches.simps)
  next
    case False
    with 1(2) have "b = take n xs \<or> b \<in> set (batches n (drop n xs))"
      by (simp add: batches_step)
    then show ?thesis
    proof
      assume "b = take n xs"
      with False show ?thesis by simp
    next
      assume "b \<in> set (batches n (drop n xs))"
      with 1(1) False show ?thesis by simp
    qed
  qed
qed

lemma batches_full: "b \<in> set (butlast (batches n xs)) \<Longrightarrow> length b = n"
proof (induction n xs rule: batches.induct)
  case (1 n xs)
  show ?case
  proof (cases "n = 0 \<or> xs = []")
    case True
    with 1(2) show ?thesis by (simp add: batches.simps)
  next
    case False
    then have s: "batches n xs = take n xs # batches n (drop n xs)"
      by (simp add: batches_step)
    show ?thesis
    proof (cases "batches n (drop n xs) = []")
      case True
      with 1(2) s show ?thesis by simp
    next
      case ne: False
      then have "drop n xs \<noteq> []"
        using batches_Nil by metis
      then have len: "length (take n xs) = n" by simp
      from 1(2) s ne have "b = take n xs \<or> b \<in> set (butlast (batches n (drop n xs)))"
        by simp
      then show ?thesis
      proof
        assume "b = take n xs"
        with len show ?thesis by simp
      next
        assume "b \<in> set (butlast (batches n (drop n xs)))"
        with 1(1) False show ?thesis by simp
      qed
    qed
  qed
qed

text \<open>
  C6, amended: \<open>getPendingQueueItems\<close> returns exactly the rows with status
  \<open>pending\<close>, ordered by \<open>created_at\<close> ascending, rows with equal \<open>created_at\<close>
  in storage order (not by id); for a batch size above zero the loop of \<open>sync\<close>
  processes the consecutive batches of that list in order, each non-empty and at most the
  batch size long, all but the last of exactly that size, and the first batch is the
  first \<open>n\<close> items. With three items of increasing \<open>created_at\<close> and a batch size
  of 2, the first batch is the two oldest items in that order (the example that follows).
\<close>

theorem pending_order_and_batches:
  assumes "getPendingQueueItems w = (Inr items, w1)" and "0 < n"
  shows "mset items = filter_mset (\<lambda>r. q_status r = Pending) (mset (sync_queue w))
     \<and> sorted (map q_created_at items)
     \<and> (\<forall>k. filter (\<lambda>r. q_created_at r = k) items
             = filter (\<lambda>r. q_created_at r = k) (filter (\<lambda>r. q_status r = Pending) (sync_queue w)))
     \<and> sync_loop pb ev n items 0 acc w1 = Some (run_batches pb ev (batches n items) acc w1)
     \<and> concat (batches n items) = items
     \<and> (\<forall>b \<in> set (batches n items). b \<noteq> [] \<and> length b \<le> n)
     \<and> (\<forall>b \<in> set (butlast (batches n items)). length b = n)
     \<and> (items \<noteq> [] \<longrightarrow> hd (batches n items) = take n items)"
proof -
  have i: "items = sort_key q_created_at (filter (\<lambda>r. q_status r = Pending) (sync_queue w))"
    using getPending_items [OF assms(1)] by (simp add: sql_select_pending_def)
  have a: "mset items = filter_mset (\<lambda>r. q_status r = Pending) (mset (sync_queue w))"
    by (simp add: i)
  have b: "sorted (map q_created_at items)"
    by (simp add: i)
  have c: "\<forall>k. filter (\<lambda>r. q_created_at r = k) items
             = filter (\<lambda>r. q_created_at r = k) (filter (\<lambda>r. q_status r = Pending) (sync_queue w))"
    unfolding i by (simp only: sort_key_stable) simp
  have d: "sync_loop pb ev n items 0 acc w1 = Some (run_batches pb ev (batches n items) acc w1)"
    using sync_loop_batches [OF assms(2), of pb ev items 0 acc w1] by simp
  have e: "concat (batches n items) = items"
    using assms(2) by (rule concat_batches)
  have f: "\<forall>b \<in> set (batches n items). b \<noteq> [] \<and> length b \<le> n"
    using batches_bound by blast
  have g: "\<forall>b \<in> set (butlast (batches n items)). length b = n"
    using batches_full by blast
  have h: "items \<noteq> [] \<longrightarrow> hd (batches n items) = take n items"
    using assms(2) by (simp add: batches_step)
  from a b c d e f g h show ?thesis by (intro conjI)
qed

theorem pending_order_and_batches_witness:
  "getPendingQueueItems shuffled_world = (Inr [item_q1, item_q2, item_q3], shuffled_world)
   \<and> (0::nat) < 2
   \<and> map q_created_at [item_q1, item_q2, item_q3] = [100, 200, 300]
   \<and> sorted (map q_created_at [item_q1, item_q2, item_q3])
   \<and> batches 2 [item_q1, item_q2, item_q3] = [[item_q1, item_q2], [item_q3]]
   \<and> hd (batches 2 [item_q1, item_q2, item_q3]) = [item_q1, item_q2]
   \<and> sync_loop (processBatch pair_env) pair_env 2 [item_q1, item_q2, item_q3] 0
        \<lparr>synced = 0, failed = 0, errs = []\<rparr> shuffled_world
       = Some (run_batches (processBatch pair_env) pair_env [[item_q1, item_q2], [item_q3]]
           \<lparr>synced = 0, failed = 0, errs = []\<rparr> shuffled_world)"
proof -
  have g: "getPendingQueueItems shuffled_world = (Inr [item_q1, item_q2, item_q3], shuffled_world)"
    by (simp add: getPendingQueueItems_def db_call_def sql_select_pending_def shuffled_world_def
        example_world_def item_q1_def item_q2_def item_q3_def)
  have p: "(0::nat) < 2" by simp
  have c: "map q_created_at [item_q1, item_q2, item_q3] = [100, 200, 300]"
    by (simp add: item_q1_def item_q2_def item_q3_def)
  have ne: "[item_q1, item_q2, item_q3] \<noteq> []" by simp
  from pending_order_and_batches [OF g p, of "processBatch pair_env" pair_env "\<lparr>synced = 0, failed = 0, errs = []\<rparr>"]
  have s: "sorted (map q_created_at [item_q1, item_q2, item_q3])"
    and l: "sync_loop (processBatch pair_env) pair_env 2 [item_q1, item_q2, item_q3] 0
        \<lparr>synced = 0, failed = 0, errs = []\<rparr> shuffled_world
       = Some (run_batches (processBatch pair_env) pair_env (batches 2 [item_q1, item_q2, item_q3])
           \<lparr>synced = 0, failed = 0, errs = []\<rparr> shuffled_world)"
    and h: "hd (batches 2 [item_q1, item_q2, item_q3]) = take 2 [item_q1, item_q2, item_q3]"
    using ne by blast+
  have b: "batches 2 [item_q1, item_q2, item_q3] = [[item_q1, item_q2], [item_q3]]"
    by (rule batches_pair)
  from g p c s b h l show ?thesis
    by (simp only: b list.sel take_Suc_Cons take_0 numeral_2_eq_2 simp_thms)
qed

section \<open>The stub transport and the conflict resolver\<close>

lemma keeps_contentI:
  "(\<And>w. map task_content (tasks (snd (m w))) = map task_content (tasks w)) \<Longrightarrow> keeps_content m"
  by (simp add: keeps_content_def)

lemma keeps_contentD:
  "keeps_content m \<Longrightarrow> map task_content (tasks (snd (m w))) = map task_content (tasks w)"
  by (simp add: keeps_content_def)

lemma keeps_new_Date: "keeps_content new_Date"
  by (simp add: keeps_content_def new_Date_def)

lemma keeps_console_log: "keeps_content console_log"
  by (simp add: keeps_content_def console_log_def)

lemma keeps_return: "keeps_content (\<lambda>w. (x, w))"
  by (simp add: keeps_content_def)

lemma keeps_db_call:
  assumes "keeps_content f"
  shows "keeps_content (db_call f)"
proof (rule keeps_contentI)
  fix w :: world
  have t: "tasks (w\<lparr>faults := fs\<rparr>) = tasks w" for fs by simp
  show "map task_content (tasks (snd (db_call f w))) = map task_content (tasks w)"
  proof (cases "faults w")
    case Nil
    then show ?thesis
      using keeps_contentD [OF assms, of "w\<lparr>faults := tl (faults w)\<rparr>"]
      by (simp add: db_call_def case_prod_unfold)
  next
    case (Cons a fs)
    show ?thesis
    proof (cases a)
      case None
      with Cons show ?thesis
        using keeps_contentD [OF assms, of "w\<lparr>faults := tl (faults w)\<rparr>"]
        by (simp add: db_call_def case_prod_unfold)
    next
      case (Some m)
      with Cons show ?thesis by (simp add: db_call_def)
    qed
  qed
qed

lemma keeps_and_then:
  assumes "keeps_content m" and "\<And>x. keeps_content (k x)"
  shows "keeps_content (and_then m k)"
proof (rule keeps_contentI)
  fix w :: world
  obtain r w1 where m: "m w = (r, w1)" by (cases "m w")
  have a: "map task_content (tasks w1) = map task_content (tasks w)"
    using keeps_contentD [OF assms(1), of w] by (simp add: m)
  show "map task_content (tasks (snd (and_then m k w))) = map task_content (tasks w)"
  proof (cases r)
    case (Inl e)
    then show ?thesis by (simp add: and_then_def m a)
  next
    case (Inr x)
    then show ?thesis
      using keeps_contentD [OF assms(2), of x w1] by (simp add: and_then_def m a)
  qed
qed

lemma keeps_try_catch:
  assumes "keeps_content body" and "\<And>e. keeps_content (handler e)"
  shows "keeps_content (try_catch body handler)"
proof (rule keeps_contentI)
  fix w :: world
  obtain r w1 where m: "body w = (r, w1)" by (cases "body w")
  have a: "map task_content (tasks w1) = map task_content (tasks w)"
    using keeps_contentD [OF assms(1), of w] by (simp add: m)
  show "map task_content (tasks (snd (try_catch body handler w))) = map task_content (tasks w)"
  proof (cases r)
    case (Inl e)
    then show ?thesis
      using keeps_contentD [OF assms(2), of e w1] by (simp add: try_catch_def m a)
  next
    case (Inr x)
    then show ?thesis by (simp add: try_catch_def m a)
  qed
qed

lemma keeps_after_new_Date:
  assumes "\<And>now. keeps_content (k now)"
  shows "keeps_content (\<lambda>w. case new_Date w of (now, w1) \<Rightarrow> k now w1)"
proof (rule keeps_contentI)
  fix w :: world
  obtain now w1 where nd: "new_Date w = (now, w1)" by (cases "new_Date w")
  have "tasks w1 = tasks w" using nd by (auto simp: new_Date_def)
  then show "map task_content (tasks (snd (case new_Date w of (now, w1) \<Rightarrow> k now w1))) = map task_content (tasks w)"
    using keeps_contentD [OF assms, of now w1] by (simp add: nd)
qed

lemma keeps_for_each:
  assumes "\<And>item. keeps_content (body item)"
  shows "keeps_content (for_each body items)"
proof (induction items)
  case Nil
  show ?case by (simp add: keeps_return)
next
  case (Cons item rest)
  show ?case
    by (simp add: keeps_and_then assms Cons.IH)
qed

lemma content_update_task_status:
  "map task_content (sql_update_task_status st sid now tid rows) = map task_content rows"
  by (induction rows) (simp_all add: sql_update_task_status_def task_content_def)

lemma keeps_if:
  "keeps_content a \<Longrightarrow> keeps_content b \<Longrightarrow> keeps_content (if c then a else b)"
  by simp

lemma keeps_queue_update: "keeps_content (\<lambda>v. (x, v\<lparr>sync_queue := g v\<rparr>))"
  by (simp add: keeps_content_def)

lemma keeps_read: "keeps_content (\<lambda>v. (g v, v))"
  by (simp add: keeps_content_def)

lemma keeps_task_status_update:
  "keeps_content (\<lambda>v. ((), v\<lparr>tasks := sql_update_task_status st sid now tid (tasks v)\<rparr>))"
  by (simp add: keeps_content_def content_update_task_status)

lemma keeps_updateSyncStatus: "keeps_content (updateSyncStatus taskId st serverData)"
  unfolding updateSyncStatus_def Let_def
  by (intro keeps_try_catch keeps_after_new_Date keeps_and_then keeps_db_call keeps_console_log
      keeps_if keeps_queue_update keeps_task_status_update)

lemma keeps_markAsSynced: "keeps_content (markAsSynced queueId)"
proof -
  have "keeps_content (\<lambda>w. case new_Date w of (now, w1) \<Rightarrow>
        db_call (\<lambda>v. ((), v\<lparr>sync_queue := sql_mark_synced now queueId (sync_queue v)\<rparr>)) w1)"
    by (intro keeps_after_new_Date keeps_db_call keeps_queue_update)
  then show ?thesis
    by (simp add: keeps_content_def markAsSynced_def)
qed

lemma keeps_handleSyncError: "keeps_content (handleSyncError ev item err)"
  unfolding handleSyncError_def Let_def
  by (intro keeps_try_catch keeps_and_then keeps_db_call keeps_console_log
      keeps_queue_update keeps_read)

lemma keeps_processBatch: "keeps_content (processBatch ev items)"
proof -
  have "keeps_content (\<lambda>w. case new_Date w of (client_timestamp, w0) \<Rightarrow>
        try_catch
          (let processed =
                 map (\<lambda>item. \<lparr>p_client_id = q_id item, p_server_id = q_task_id item,
                                p_status = Success, p_error = None\<rparr>) items
           in and_then
                (for_each (\<lambda>item. and_then (updateSyncStatus (q_task_id item) SyncSynced None)
                                     (\<lambda>_. markAsSynced (q_id item))) items)
                (\<lambda>_. \<lambda>w1. (Inr \<lparr>processed_items = processed\<rparr>, w1)))
          (\<lambda>error.
             let failedItems =
                   map (\<lambda>item. \<lparr>p_client_id = q_id item, p_server_id = q_task_id item,
                                  p_status = OutcomeError, p_error = Some (message error)\<rparr>) items
             in and_then
                  (for_each (\<lambda>item. and_then (updateSyncStatus (q_task_id item) SyncError None)
                                       (\<lambda>_. handleSyncError ev item error)) items)
                  (\<lambda>_. \<lambda>w1. (Inr \<lparr>processed_items = failedItems\<rparr>, w1)))
          w0)"
    unfolding Let_def
    by (intro keeps_after_new_Date keeps_try_catch keeps_and_then keeps_for_each
        keeps_updateSyncStatus keeps_markAsSynced keeps_handleSyncError keeps_return)
  then show ?thesis
    by (simp add: keeps_content_def processBatch_def)
qed


lemma tasks_push_failed: "tasks (snd (push_failed fs es w)) = tasks w"
proof (induction fs arbitrary: es w)
  case Nil
  show ?case by simp
next
  case (Cons f fs)
  obtain now w1 where nd: "new_Date w = (now, w1)" by (cases "new_Date w")
  have "tasks w1 = tasks w" using nd by (auto simp: new_Date_def)
  then show ?case by (simp add: nd Cons.IH)
qed

lemma keeps_catch_items: "keeps_content (catch_items ev err items es)"
proof (induction items arbitrary: es)
  case Nil
  have "catch_items ev err [] es = (\<lambda>w. (Inr es, w))" by (rule ext) simp
  then show ?case by (simp add: keeps_return)
next
  case (Cons item rest)
  have "catch_items ev err (item # rest) es = (\<lambda>w. case new_Date w of (now, w1) \<Rightarrow>
        and_then (handleSyncError ev item err)
          (\<lambda>_. catch_items ev err rest
                  (es @ [\<lparr>e_task_id = q_task_id item, e_operation = operation_name (q_operation item),
                           e_error = message err, e_timestamp = now\<rparr>])) w1)"
    by (rule ext) simp
  then show ?case
    by (simp only:) (intro keeps_after_new_Date keeps_and_then keeps_handleSyncError Cons.IH)
qed

lemma keeps_sync_batch:
  assumes "\<And>b. keeps_content (pb b)"
  shows "keeps_content (sync_batch pb ev batch acc)"
proof (rule keeps_contentI)
  fix w :: world
  obtain r w1 where p: "pb batch w = (r, w1)" by (cases "pb batch w")
  have a: "map task_content (tasks w1) = map task_content (tasks w)"
    using keeps_contentD [OF assms, of batch w] by (simp add: p)
  show "map task_content (tasks (snd (sync_batch pb ev batch acc w))) = map task_content (tasks w)"
  proof (cases r)
    case (Inl err)
    obtain r2 w2 where c: "catch_items ev err batch (errs acc) w1 = (r2, w2)"
      by (cases "catch_items ev err batch (errs acc) w1")
    have "map task_content (tasks w2) = map task_content (tasks w1)"
      using keeps_contentD [OF keeps_catch_items, of ev err batch "errs acc" w1] by (simp add: c)
    with a show ?thesis
      by (cases r2) (simp_all add: sync_batch_def p Inl c)
  next
    case (Inr result)
    then show ?thesis
      by (simp add: sync_batch_def p Let_def case_prod_unfold tasks_push_failed a)
  qed
qed

lemma keeps_run_batches:
  assumes "\<And>b. keeps_content (pb b)"
  shows "keeps_content (run_batches pb ev bss acc)"
proof (induction bss arbitrary: acc)
  case Nil
  have "run_batches pb ev [] acc = (\<lambda>w. (Inr acc, w))" by (rule ext) simp
  then show ?case by (simp add: keeps_return)
next
  case (Cons b bss)
  show ?case
  proof (rule keeps_contentI)
    fix w :: world
    obtain r w1 where s: "sync_batch pb ev b acc w = (r, w1)"
      by (cases "sync_batch pb ev b acc w")
    have a: "map task_content (tasks w1) = map task_content (tasks w)"
      using keeps_contentD [OF keeps_sync_batch [of pb ev b acc], OF assms, of w] by (simp add: s)
    show "map task_content (tasks (snd (run_batches pb ev (b # bss) acc w))) = map task_content (tasks w)"
    proof (cases r)
      case (Inl e)
      then show ?thesis by (simp add: s a)
    next
      case (Inr acc1)
      then show ?thesis
        using keeps_contentD [OF Cons.IH, of acc1 w1] by (simp add: s a)
    qed
  qed
qed

lemma sync_keeps_content:
  assumes "sync ev health w = Some (res, w')"
  shows "map task_content (tasks w') = map task_content (tasks w)"
proof (cases health)
  case (Some e)
  with assms show ?thesis
    by (auto simp: sync_def sync_with_def checkConnectivity_def new_Date_def)
next
  case None
  obtain g w1 where g: "getPendingQueueItems w = (g, w1)"
    by (cases "getPendingQueueItems w")
  have "keeps_content getPendingQueueItems"
    unfolding getPendingQueueItems_def by (intro keeps_db_call keeps_read)
  from keeps_contentD [OF this, of w] have a: "map task_content (tasks w1) = map task_content (tasks w)"
    by (simp add: g)
  show ?thesis
  proof (cases g)
    case (Inl e)
    with assms g None a show ?thesis
      by (auto simp: sync_def sync_with_def checkConnectivity_def)
  next
    case (Inr items)
    show ?thesis
    proof (cases "items = []")
      case True
      with assms g Inr None a show ?thesis
        by (auto simp: sync_def sync_with_def checkConnectivity_def)
    next
      case False
      let ?n = "batchSize_of ev"
      let ?z = "\<lparr>synced = 0, failed = 0, errs = []\<rparr>"
      have pos: "0 < ?n"
      proof (rule ccontr)
        assume "\<not> 0 < ?n"
        then have "sync_loop (processBatch ev) ev ?n items 0 ?z w1 = None"
          using False sync_loop_zero_diverges [of 0 items "processBatch ev" ev ?z w1] by simp
        with assms g Inr False None show False
          by (simp add: sync_def sync_with_def checkConnectivity_def)
      qed
      have l: "sync_loop (processBatch ev) ev ?n items 0 ?z w1
          = Some (run_batches (processBatch ev) ev (batches ?n items) ?z w1)"
        using sync_loop_batches [OF pos, of "processBatch ev" ev items 0 ?z w1] by simp
      obtain rr w2 where rb: "run_batches (processBatch ev) ev (batches ?n items) ?z w1 = (rr, w2)"
        by (cases "run_batches (processBatch ev) ev (batches ?n items) ?z w1")
      have b: "map task_content (tasks w2) = map task_content (tasks w1)"
        using keeps_contentD [OF keeps_run_batches [of "processBatch ev" ev "batches ?n items" ?z],
            OF keeps_processBatch, of w1]
        by (simp add: rb)
      from assms g Inr False None l rb have "w' = w2"
        by (cases rr) (simp_all add: sync_def sync_with_def checkConnectivity_def Let_def)
      with a b show ?thesis by simp
    qed
  qed
qed


lemma and_then_Inr: "m w = (Inr v, w1) \<Longrightarrow> and_then m k w = k v w1"
  by (simp add: and_then_def)

lemma list_all_tl: "list_all P xs \<Longrightarrow> list_all P (tl xs)"
  by (cases xs) simp_all

lemma updateSyncStatus_no_faults:
  assumes "no_faults w"
  shows "fst (updateSyncStatus taskId st serverData w) = Inr ()
       \<and> no_faults (snd (updateSyncStatus taskId st serverData w))"
  using assms
  by (simp add: updateSyncStatus_def try_catch_def and_then_def db_call_no_faults no_faults_def
      list_all_tl new_Date_def console_log_def Let_def)

lemma sync_items_no_faults:
  assumes "no_faults w"
  shows "fst (for_each (\<lambda>item. and_then (updateSyncStatus (q_task_id item) SyncSynced None)
                         (\<lambda>_. markAsSynced (q_id item))) items w) = Inr ()"
  using assms
proof (induction items arbitrary: w)
  case Nil
  show ?case by simp
next
  case (Cons item rest)
  obtain w1 where u: "updateSyncStatus (q_task_id item) SyncSynced None w = (Inr (), w1)"
    and nf1: "no_faults w1"
    using updateSyncStatus_no_faults [OF Cons.prems, of "q_task_id item" SyncSynced None]
    by (cases "updateSyncStatus (q_task_id item) SyncSynced None w") simp
  obtain w2 where m: "markAsSynced (q_id item) w1 = (Inr (), w2)" and nf2: "no_faults w2"
    using markAsSynced_no_faults [OF nf1, of "q_id item"] markAsSynced_keeps_no_faults [OF nf1, of "q_id item"]
    by (cases "markAsSynced (q_id item) w1") simp
  have b: "and_then (updateSyncStatus (q_task_id item) SyncSynced None)
             (\<lambda>_. markAsSynced (q_id item)) w = (Inr (), w2)"
    by (simp add: and_then_def u m)
  show ?case
    by (simp add: and_then_Inr
        [of "and_then (updateSyncStatus (q_task_id item) SyncSynced None)
               (\<lambda>_. markAsSynced (q_id item))" w "()" w2, OF b]
        Cons.IH [OF nf2])
qed

lemma processBatch_no_faults:
  assumes "no_faults w"
  shows "fst (processBatch ev items w) =
     Inr \<lparr>processed_items =
            map (\<lambda>item. \<lparr>p_client_id = q_id item, p_server_id = q_task_id item,
                           p_status = Success, p_error = None\<rparr>) items\<rparr>"
proof -
  obtain ts w0 where nd: "new_Date w = (ts, w0)" by (cases "new_Date w")
  have nf0: "no_faults w0"
    using assms no_faults_new_Date [of w] by (simp add: nd)
  obtain w1 where f: "for_each (\<lambda>item. and_then (updateSyncStatus (q_task_id item) SyncSynced None)
                         (\<lambda>_. markAsSynced (q_id item))) items w0 = (Inr (), w1)"
    using sync_items_no_faults [OF nf0, of items]
    by (cases "for_each (\<lambda>item. and_then (updateSyncStatus (q_task_id item) SyncSynced None)
                         (\<lambda>_. markAsSynced (q_id item))) items w0") simp
  show ?thesis
    by (simp add: processBatch_def nd try_catch_def Let_def and_then_Inr
        [of "for_each (\<lambda>item. and_then (updateSyncStatus (q_task_id item) SyncSynced None)
                         (\<lambda>_. markAsSynced (q_id item))) items" w0 "()" w1, OF f])
qed

text \<open>
  C10: when no exception is raised inside it, \<open>processBatch\<close> returns a
  \<open>success\<close> outcome for every item of its batch, with no error outcome (the send is a
  stub). No sync cycle runs the conflict resolver: whatever the probe and the storage do,
  a cycle that returns leaves the id, title, description, completed flag and
  \<open>updated_at\<close> of every task, the fields the resolver would overwrite, as they were.
\<close>

theorem processBatch_all_success:
  "(no_faults w \<longrightarrow>
      fst (processBatch ev items w) =
        Inr \<lparr>processed_items =
               map (\<lambda>item. \<lparr>p_client_id = q_id item, p_server_id = q_task_id item,
                              p_status = Success, p_error = None\<rparr>) items\<rparr>)
   \<and> (\<forall>res w'. sync ev health w = Some (res, w') \<longrightarrow>
         map task_content (tasks w') = map task_content (tasks w))"
  using processBatch_no_faults sync_keeps_content by blast

lemma sync_clean_example:
  "map_option fst (sync pair_env None example_world)
     = Some (Inr \<lparr>success = 1, synced_items = 3, failed_items = 0, errors = []\<rparr>)"
  by (simp add: sync_loop_batches batches_pair eval_sync_defs eval_batch_defs eval_defs)

theorem processBatch_all_success_witness:
  "no_faults example_world
   \<and> fst (processBatch pair_env [item_q1, item_q2] example_world) =
        Inr \<lparr>processed_items =
          [\<lparr>p_client_id = ''q1'', p_server_id = ''t1'', p_status = Success, p_error = None\<rparr>,
           \<lparr>p_client_id = ''q2'', p_server_id = ''t1'', p_status = Success, p_error = None\<rparr>]\<rparr>
   \<and> map_option fst (sync pair_env None example_world)
       = Some (Inr \<lparr>success = 1, synced_items = 3, failed_items = 0, errors = []\<rparr>)
   \<and> map_option (\<lambda>x. map task_content (tasks (snd x))) (sync pair_env None example_world)
       = Some (map task_content (tasks example_world))
   \<and> map task_content (tasks (snd (resolveConflict task_t1 (task_t1\<lparr>t_title := ''remote''\<rparr>) example_world)))
       \<noteq> map task_content (tasks example_world)"
proof -
  have p: "fst (processBatch pair_env [item_q1, item_q2] example_world) =
        Inr \<lparr>processed_items =
          [\<lparr>p_client_id = ''q1'', p_server_id = ''t1'', p_status = Success, p_error = None\<rparr>,
           \<lparr>p_client_id = ''q2'', p_server_id = ''t1'', p_status = Success, p_error = None\<rparr>]\<rparr>"
    using processBatch_all_success [of example_world pair_env "[item_q1, item_q2]" None]
      no_faults_example_world
    by (simp add: item_q1_def item_q2_def)
  obtain res w' where s: "sync pair_env None example_world = Some (res, w')"
    using sync_clean_example by (cases "sync pair_env None example_world") auto
  have c: "map task_content (tasks w') = map task_content (tasks example_world)"
    using processBatch_all_success [of example_world pair_env "[]" None] s by blast
  have c': "map_option (\<lambda>x. map task_content (tasks (snd x))) (sync pair_env None example_world)
       = Some (map task_content (tasks example_world))"
    by (simp add: s c)
  have r: "map task_content (tasks (snd (resolveConflict task_t1 (task_t1\<lparr>t_title := ''remote''\<rparr>) example_world)))
       \<noteq> map task_content (tasks example_world)"
    by (simp add: resolveConflict_def js_gt_def sql_store_resolved_def task_content_def eval_defs)
  from no_faults_example_world p sync_clean_example c' r show ?thesis
    by (intro conjI)
qed

section \<open>A batch whose processing raises\<close>

text \<open>
  \<open>processBatch\<close> itself never raises (\<open>processBatch_returns\<close>), so the
  \<open>catch\<close> clause of \<open>sync\<close> is not entered: when a call in the \<open>try\<close> block of
  \<open>processBatch\<close> throws, its own \<open>catch\<close> clause gives every item of the batch an
  error outcome and calls \<open>handleSyncError\<close> for each, and \<open>sync\<close> then counts
  the whole batch as failed with one entry per item.
\<close>

lemma push_failed_length: "length (fst (push_failed fs es w)) = length es + length fs"
proof (induction fs arbitrary: es w)
  case Nil
  show ?case by simp
next
  case (Cons f fs)
  obtain now w1 where nd: "new_Date w = (now, w1)" by (cases "new_Date w")
  show ?case by (simp add: nd Cons.IH)
qed

lemma processBatch_on_exception:
  assumes "new_Date w = (ts, w0)"
    and "for_each (\<lambda>item. and_then (updateSyncStatus (q_task_id item) SyncSynced None)
                     (\<lambda>_. markAsSynced (q_id item))) items w0 = (Inl err, w1)"
  shows "processBatch ev items w =
     (Inr \<lparr>processed_items =
             map (\<lambda>item. \<lparr>p_client_id = q_id item, p_server_id = q_task_id item,
                            p_status = OutcomeError, p_error = Some (message err)\<rparr>) items\<rparr>,
      snd (for_each (\<lambda>item. and_then (updateSyncStatus (q_task_id item) SyncError None)
                       (\<lambda>_. handleSyncError ev item err)) items w1))"
proof -
  let ?h = "for_each (\<lambda>item. and_then (updateSyncStatus (q_task_id item) SyncError None)
                       (\<lambda>_. handleSyncError ev item err)) items"
  have "fst (?h w1) = Inr ()"
    by (rule for_each_returns) (rule and_then_returns, rule updateSyncStatus_returns, rule handleSyncError_returns)
  then obtain w2 where h: "?h w1 = (Inr (), w2)"
    by (cases "?h w1") simp
  have b: "and_then (for_each (\<lambda>item. and_then (updateSyncStatus (q_task_id item) SyncSynced None)
                     (\<lambda>_. markAsSynced (q_id item))) items) k w0 = (Inl err, w1)" for k :: "unit \<Rightarrow> batch_sync_response io"
    by (simp add: and_then_def assms(2))
  show ?thesis
    by (simp add: processBatch_def assms(1) Let_def try_catch_def b h
        and_then_Inr [of ?h w1 "()" w2, OF h])
qed

lemma sync_batch_on_exception:
  assumes "new_Date w = (ts, w0)"
    and "for_each (\<lambda>item. and_then (updateSyncStatus (q_task_id item) SyncSynced None)
                     (\<lambda>_. markAsSynced (q_id item))) items w0 = (Inl err, w1)"
  shows "\<exists>es w2. sync_batch (processBatch ev) ev items acc w =
           (Inr \<lparr>synced = synced acc, failed = failed acc + length items, errs = es\<rparr>, w2)
       \<and> length es = length (errs acc) + length items"
proof -
  let ?ps = "map (\<lambda>item. \<lparr>p_client_id = q_id item, p_server_id = q_task_id item,
                            p_status = OutcomeError, p_error = Some (message err)\<rparr>) items"
  have f1: "filter (\<lambda>p. p_status p = OutcomeError) ?ps = ?ps"
    by (induction items) simp_all
  have f2: "filter (\<lambda>p. p_status p = Success) ?ps = []"
    by (induction items) simp_all
  obtain w2 where p: "processBatch ev items w = (Inr \<lparr>processed_items = ?ps\<rparr>, w2)"
    using processBatch_on_exception [OF assms, of ev] by simp
  obtain es w3 where q: "push_failed ?ps (errs acc) w2 = (es, w3)"
    by (cases "push_failed ?ps (errs acc) w2")
  have l: "length es = length (errs acc) + length items"
    using push_failed_length [of ?ps "errs acc" w2] by (simp add: q)
  have "sync_batch (processBatch ev) ev items acc w =
           (Inr \<lparr>synced = synced acc, failed = failed acc + length items, errs = es\<rparr>, w3)"
    by (simp add: sync_batch_def p Let_def f1 f2 q)
  with l show ?thesis by blast
qed

lemma processBatch_loops:
  "processBatch ev items w =
     (case new_Date w of (client_timestamp, w0) \<Rightarrow>
        try_catch
          (and_then (mark_items_synced items)
             (\<lambda>_. \<lambda>w1. (Inr \<lparr>processed_items =
                  map (\<lambda>item. \<lparr>p_client_id = q_id item, p_server_id = q_task_id item,
                                 p_status = Success, p_error = None\<rparr>) items\<rparr>, w1)))
          (\<lambda>error.
             and_then (mark_items_failed ev error items)
               (\<lambda>_. \<lambda>w1. (Inr \<lparr>processed_items =
                    map (\<lambda>item. \<lparr>p_client_id = q_id item, p_server_id = q_task_id item,
                                   p_status = OutcomeError, p_error = Some (message error)\<rparr>) items\<rparr>, w1)))
          w0)"
  by (simp add: processBatch_def mark_items_synced_def mark_items_failed_def Let_def)










end
